theory Spec2Isabelle
  imports Main "HOL-Library.Word" "HOL-Library.AList"
begin

unbundle bit_operations_syntax

section \<open>The IPCache metadata layer (pkg/ipcache/metadata.go)\<close>

text \<open>
  The development embeds the functions of \<^verbatim>\<open>pkg/ipcache/metadata.go\<close>. Go maps are
  association lists: iteration over a Go map visits the entries in an unspecified order,
  which here is the order of the list, and every theorem holds for every list. All
  functions run under the mutex the source takes, so each is a sequential state
  transformer on the record \<open>metadata\<close>.
\<close>

subsection \<open>Addresses and prefixes\<close>

text \<open>
  Go's \<^verbatim>\<open>netip.Addr\<close>: the zero value, an IPv4 address or an IPv6 address (zones are
  left out: \<^verbatim>\<open>netip.Prefix\<close> never carries one). \<^verbatim>\<open>netip.Prefix\<close> is the struct
  \<^verbatim>\<open>{ip Addr; bitsPlusOne uint8}\<close>, valid when \<open>bitsPlusOne\<close> is positive.
\<close>

datatype Addr = AddrZero | Addr4 "32 word" | Addr6 "128 word"

record Prefix =
  ip :: Addr
  bitsPlusOne :: nat

text \<open>
  Modelled from the spec: \<^verbatim>\<open>cmtypes.PrefixCluster\<close> is not under src/. The
  specification has it as the pair of a prefix and a cluster ID (a \<^verbatim>\<open>uint32\<close>). Its
  methods \<^verbatim>\<open>AsPrefix\<close> and \<^verbatim>\<open>ClusterID\<close> are the two fields,
  \<^verbatim>\<open>NewPrefixCluster\<close> builds the record.
\<close>

record PrefixCluster =
  AsPrefix :: Prefix
  ClusterID :: "32 word"

definition NewPrefixCluster :: "Prefix \<Rightarrow> 32 word \<Rightarrow> PrefixCluster" where
  "NewPrefixCluster p c = \<lparr>AsPrefix = p, ClusterID = c\<rparr>"

text \<open>
  The methods of \<^verbatim>\<open>netip\<close> the file calls. \<^verbatim>\<open>Prefix.Bits\<close> is \<open>-1\<close> for an
  invalid prefix. \<^verbatim>\<open>Addr.Unmap\<close> turns an IPv4-mapped IPv6 address
  (\<^verbatim>\<open>::ffff:a.b.c.d\<close>) into the IPv4 address. \<^verbatim>\<open>Addr.Prefix(b)\<close> zeroes the bits
  after the first \<open>b\<close>; it returns the zero prefix with an error when \<open>b\<close> is negative or
  longer than the address, and the zero prefix without error on the zero address.
\<close>

definition zeroPrefix :: Prefix where
  "zeroPrefix = \<lparr>ip = AddrZero, bitsPlusOne = 0\<rparr>"

definition IsValid :: "Prefix \<Rightarrow> bool" where
  "IsValid p = (0 < bitsPlusOne p)"

definition Bits :: "Prefix \<Rightarrow> int" where
  "Bits p = int (bitsPlusOne p) - 1"

fun BitLen :: "Addr \<Rightarrow> nat" where
  "BitLen AddrZero = 0"
| "BitLen (Addr4 _) = 32"
| "BitLen (Addr6 _) = 128"

fun Is4 :: "Addr \<Rightarrow> bool" where
  "Is4 (Addr4 _) = True"
| "Is4 _ = False"

fun Unmap :: "Addr \<Rightarrow> Addr" where
  "Unmap (Addr6 a) = (if drop_bit 32 a = 0xffff then Addr4 (ucast a) else Addr6 a)"
| "Unmap a = a"

definition PrefixFrom :: "Addr \<Rightarrow> int \<Rightarrow> Prefix" where
  "PrefixFrom a b =
     \<lparr>ip = a,
      bitsPlusOne = (if a \<noteq> AddrZero \<and> 0 \<le> b \<and> b \<le> int (BitLen a) then nat b + 1 else 0)\<rparr>"

datatype PrefixError = NegativePrefixBits | PrefixLengthTooLarge

definition Addr_Prefix :: "Addr \<Rightarrow> int \<Rightarrow> Prefix \<times> PrefixError option" where
  "Addr_Prefix a b =
     (if b < 0 then (zeroPrefix, Some NegativePrefixBits)
      else case a of
        AddrZero \<Rightarrow> (zeroPrefix, None)
      | Addr4 w \<Rightarrow>
          if b > 32 then (zeroPrefix, Some PrefixLengthTooLarge)
          else (PrefixFrom (Addr4 (w AND NOT (mask (32 - nat b)))) b, None)
      | Addr6 w \<Rightarrow>
          if b > 128 then (zeroPrefix, Some PrefixLengthTooLarge)
          else (PrefixFrom (Addr6 (w AND NOT (mask (128 - nat b)))) b, None))"

text \<open>
  \<^verbatim>\<open>PrefixCluster.IsSingleIP\<close>, that is \<^verbatim>\<open>netip.Prefix.IsSingleIP\<close> of its prefix: a
  valid prefix as long as its address.
\<close>

definition IsSingleIP :: "PrefixCluster \<Rightarrow> bool" where
  "IsSingleIP pc = (IsValid (AsPrefix pc) \<and> Bits (AsPrefix pc) = int (BitLen (ip (AsPrefix pc))))"

text \<open>
  \<^verbatim>\<open>canonicalPrefix\<close> (metadata.go:208): an invalid prefix is returned as it is; so is
  one whose unmapped address cannot take the prefix length.
\<close>

definition canonicalPrefix :: "PrefixCluster \<Rightarrow> PrefixCluster" where
  "canonicalPrefix prefixCluster =
     (if \<not> IsValid (AsPrefix prefixCluster) then prefixCluster
      else
        let prefix = AsPrefix prefixCluster;
            clusterID = ClusterID prefixCluster
        in case Addr_Prefix (Unmap (ip prefix)) (Bits prefix) of
             (p, Some err) \<Rightarrow> prefixCluster
           | (p, None) \<Rightarrow> NewPrefixCluster p clusterID)"

subsection \<open>Labels\<close>

text \<open>
  Modelled from the spec: package \<^verbatim>\<open>labels\<close> is not under src/. The file uses
  \<^verbatim>\<open>labels.Labels\<close> as a Go map from a label's key to the label
  (\<^verbatim>\<open>lbls[k] = v\<close>, \<^verbatim>\<open>len(lbls)\<close>) and reads the source of a label
  (\<^verbatim>\<open>v.Source\<close>); the label carries its source and its value, and its key is the
  key of the map. The nil map and the empty map are both the empty list.
\<close>

record Label =
  Source :: string
  Val :: string

type_synonym Labels = "(string \<times> Label) list"

text \<open>
  Modelled from the spec: package \<^verbatim>\<open>labels\<close> is not under src/. The sources
  \<^verbatim>\<open>cidr\<close>, \<^verbatim>\<open>fqdn\<close>, \<^verbatim>\<open>cidrgroup\<close>, \<^verbatim>\<open>node\<close> and \<^verbatim>\<open>reserved\<close>, and the
  reserved labels \<^verbatim>\<open>reserved:host\<close>, \<^verbatim>\<open>reserved:world\<close>,
  \<^verbatim>\<open>reserved:world-ipv4\<close> and \<^verbatim>\<open>reserved:world-ipv6\<close>, each as the one-entry
  label set the source file passes around.
\<close>

definition LabelSourceCIDR :: string where "LabelSourceCIDR = ''cidr''"
definition LabelSourceFQDN :: string where "LabelSourceFQDN = ''fqdn''"
definition LabelSourceCIDRGroup :: string where "LabelSourceCIDRGroup = ''cidrgroup''"
definition LabelSourceNode :: string where "LabelSourceNode = ''node''"
definition LabelSourceReserved :: string where "LabelSourceReserved = ''reserved''"

definition reservedLabel :: Label where
  "reservedLabel = \<lparr>Source = LabelSourceReserved, Val = []\<rparr>"

definition LabelHost :: Labels where "LabelHost = [(''host'', reservedLabel)]"
definition LabelWorld :: Labels where "LabelWorld = [(''world'', reservedLabel)]"
definition LabelWorldIPv4 :: Labels where "LabelWorldIPv4 = [(''world-ipv4'', reservedLabel)]"
definition LabelWorldIPv6 :: Labels where "LabelWorldIPv6 = [(''world-ipv6'', reservedLabel)]"

text \<open>
  Modelled from the spec: the tests \<^verbatim>\<open>HasHostLabel\<close>, \<^verbatim>\<open>HasRemoteNodeLabel\<close>,
  \<^verbatim>\<open>HasHealthLabel\<close>, \<^verbatim>\<open>HasIngressLabel\<close>, \<^verbatim>\<open>HasWorldLabel\<close> and
  \<^verbatim>\<open>HasKubeAPIServerLabel\<close> of package \<^verbatim>\<open>labels\<close> are not under src/. The
  specification says a prefix "carries" \<^verbatim>\<open>reserved:host\<close> and so on: the label set
  has, under that key, a label of the source \<^verbatim>\<open>reserved\<close>.
\<close>

definition hasReserved :: "string \<Rightarrow> Labels \<Rightarrow> bool" where
  "hasReserved k lbls =
     (case map_of lbls k of None \<Rightarrow> False | Some l \<Rightarrow> Source l = LabelSourceReserved)"

definition HasHostLabel :: "Labels \<Rightarrow> bool" where
  "HasHostLabel lbls = hasReserved ''host'' lbls"

definition HasRemoteNodeLabel :: "Labels \<Rightarrow> bool" where
  "HasRemoteNodeLabel lbls = hasReserved ''remote-node'' lbls"

definition HasHealthLabel :: "Labels \<Rightarrow> bool" where
  "HasHealthLabel lbls = hasReserved ''health'' lbls"

definition HasIngressLabel :: "Labels \<Rightarrow> bool" where
  "HasIngressLabel lbls = hasReserved ''ingress'' lbls"

definition HasWorldLabel :: "Labels \<Rightarrow> bool" where
  "HasWorldLabel lbls = hasReserved ''world'' lbls"

definition HasKubeAPIServerLabel :: "Labels \<Rightarrow> bool" where
  "HasKubeAPIServerLabel lbls = hasReserved ''kube-apiserver'' lbls"

text \<open>
  Modelled from the spec: the methods of \<^verbatim>\<open>labels.Labels\<close> the file calls are not
  under src/. The file calls each of them for its effect on the receiver, a Go map:
  \<^verbatim>\<open>HasSource\<close> tests for a label of a source; \<^verbatim>\<open>Remove\<close> strips the keys of its
  argument; \<^verbatim>\<open>RemoveFromSource\<close> strips the labels of a source; \<^verbatim>\<open>MergeLabels\<close>
  (and Go's \<^verbatim>\<open>maps.Copy\<close>) writes every entry of its argument into the receiver.
\<close>

definition HasSource :: "string \<Rightarrow> Labels \<Rightarrow> bool" where
  "HasSource src lbls = list_ex (\<lambda>kv. Source (snd kv) = src) lbls"

definition Remove :: "Labels \<Rightarrow> Labels \<Rightarrow> Labels" where
  "Remove from lbls = filter (\<lambda>kv. map_of from (fst kv) = None) lbls"

definition RemoveFromSource :: "string \<Rightarrow> Labels \<Rightarrow> Labels" where
  "RemoveFromSource src lbls = filter (\<lambda>kv. Source (snd kv) \<noteq> src) lbls"

definition MergeLabels :: "Labels \<Rightarrow> Labels \<Rightarrow> Labels" where
  "MergeLabels from lbls = fold (\<lambda>kv acc. AList.update (fst kv) (snd kv) acc) from lbls"

text \<open>
  The options of \<^verbatim>\<open>option.Config\<close> the file reads, and \<open>IsDualStack\<close>, on which the
  choice of the world label rests.
\<close>

record config =
  PolicyCIDRMatchesNodes :: bool
  PerNodeLabelsEnabled :: bool
  IsDualStack :: bool

text \<open>
  Modelled from the spec: \<^verbatim>\<open>Labels.AddWorldLabel\<close> is not under src/. The
  specification says it adds \<^verbatim>\<open>reserved:world\<close> "or the appropriate v4/v6 variant":
  the model adds the variant of the address family when the agent runs dual-stack and the
  plain label otherwise.
\<close>

definition worldKey :: "config \<Rightarrow> Addr \<Rightarrow> string" where
  "worldKey cfg a = (if \<not> IsDualStack cfg then ''world''
                     else if Is4 a then ''world-ipv4'' else ''world-ipv6'')"

definition AddWorldLabel :: "config \<Rightarrow> Addr \<Rightarrow> Labels \<Rightarrow> Labels" where
  "AddWorldLabel cfg a lbls = AList.update (worldKey cfg a) reservedLabel lbls"

text \<open>
  \<^verbatim>\<open>resolveLabels\<close> (metadata.go:768). \<^verbatim>\<open>labels.GetCIDRLabels\<close>, which builds the
  fallback labels \<^verbatim>\<open>cidr:<prefix>\<close> from the text of the prefix, is not under src/
  and is the parameter \<open>GetCIDRLabels\<close>.
\<close>

definition resolveLabels ::
  "config \<Rightarrow> (Prefix \<Rightarrow> Labels) \<Rightarrow> Labels \<Rightarrow> PrefixCluster \<Rightarrow> Labels" where
  "resolveLabels cfg GetCIDRLabels lbls prefix =
     (let isNode = (HasRemoteNodeLabel lbls \<or> HasHostLabel lbls);
          isInCluster = (isNode \<or> HasHealthLabel lbls \<or> HasIngressLabel lbls);
          l1 = (if isInCluster
                then Remove LabelWorldIPv6 (Remove LabelWorldIPv4 (Remove LabelWorld lbls))
                else lbls);
          l2 = (if isInCluster \<and> \<not> (isNode \<and> PolicyCIDRMatchesNodes cfg)
                then RemoveFromSource LabelSourceCIDRGroup
                       (RemoveFromSource LabelSourceFQDN (RemoveFromSource LabelSourceCIDR l1))
                else l1);
          l3 = (if \<not> (isNode \<and> PerNodeLabelsEnabled cfg)
                then RemoveFromSource LabelSourceNode l2 else l2);
          l4 = (if length l3 = 0 then MergeLabels (GetCIDRLabels (AsPrefix prefix)) l3 else l3)
      in if \<not> isInCluster then AddWorldLabel cfg (ip (AsPrefix prefix)) l4 else l4)"

text \<open>
  The labels \<^verbatim>\<open>resolveLabels\<close> holds after its removals (world labels, CIDR-like
  labels, node labels) and before the fallback.
\<close>

definition strippedLabels :: "config \<Rightarrow> Labels \<Rightarrow> Labels" where
  "strippedLabels cfg lbls =
     (let isNode = (HasRemoteNodeLabel lbls \<or> HasHostLabel lbls);
          isInCluster = (isNode \<or> HasHealthLabel lbls \<or> HasIngressLabel lbls);
          l1 = (if isInCluster
                then Remove LabelWorldIPv6 (Remove LabelWorldIPv4 (Remove LabelWorld lbls))
                else lbls);
          l2 = (if isInCluster \<and> \<not> (isNode \<and> PolicyCIDRMatchesNodes cfg)
                then RemoveFromSource LabelSourceCIDRGroup
                       (RemoveFromSource LabelSourceFQDN (RemoveFromSource LabelSourceCIDR l1))
                else l1)
      in if \<not> (isNode \<and> PerNodeLabelsEnabled cfg)
         then RemoveFromSource LabelSourceNode l2 else l2)"

subsection \<open>Resources, prefix information and the store\<close>

text \<open>
  Modelled from the spec: \<^verbatim>\<open>source.Source\<close> is not under src/. The specification
  gives the sources in the order of their precedence (highest first): KubeAPIServer, Local,
  CustomResource, KVStore, Generated, Unspec.
\<close>

datatype source = KubeAPIServer | Local | CustomResource | KVStore | Generated | Unspec

text \<open>
  Modelled from the spec: the types \<^verbatim>\<open>IPMetadata\<close>, \<^verbatim>\<open>resourceInfo\<close> and
  \<^verbatim>\<open>prefixInfo\<close> are not under src/. An \<^verbatim>\<open>IPMetadata\<close> is one attribute a caller
  attaches to a prefix; a \<^verbatim>\<open>resourceInfo\<close> is the contribution of one resource, with
  the attributes the specification lists (3, ResourceInfo), absent attributes being
  \<open>None\<close>.
\<close>

datatype IPMetadata =
    MLabels Labels
  | MTunnelPeer Addr
  | MEncryptKey "8 word"
  | MEndpointFlags "8 word"
  | MOverrideIdentity bool
  | MRequestedIdentity "32 word"

record resourceInfo =
  labels :: Labels
  source :: source
  tunnelPeer :: "Addr option"
  encryptKey :: "8 word option"
  endpointFlags :: "8 word option"
  identityOverride :: bool
  requestedIdentity :: "32 word option"

text \<open>
  \<^verbatim>\<open>prefixInfo\<close>: the contributions by resource (a Go map from the resource ID), and
  the cached flattened view (\<open>None\<close> is the nil pointer).
\<close>

record prefixInfo =
  byResource :: "(string \<times> resourceInfo) list"
  flattened :: "resourceInfo option"

text \<open>
  \<^verbatim>\<open>struct metadata\<close>. \<open>m\<close> is the map from prefix to \<open>prefixInfo\<close>; \<open>prefixes\<close>
  holds, for each cluster, the prefixes stored in that cluster's trie; \<open>queuedPrefixes\<close>
  is a Go \<^verbatim>\<open>map[PrefixCluster]struct{}\<close>, a set kept as a list without repetitions;
  the two revisions are \<^verbatim>\<open>uint64\<close>; \<open>reservedHostLabels\<close> maps a host prefix to
  its labels.
\<close>

record metadata =
  m :: "(PrefixCluster \<times> prefixInfo) list"
  prefixes :: "32 word \<Rightarrow> Prefix list"
  queuedPrefixes :: "PrefixCluster list"
  queuedRevision :: "64 word"
  injectedRevision :: "64 word"
  reservedHostLabels :: "(Prefix \<times> Labels) list"

subsection \<open>Revisions and the queue of changed prefixes\<close>

text \<open>\<^verbatim>\<open>newMetadata\<close>: empty maps, and a queue whose revision starts at 1.\<close>

definition newMetadata :: metadata where
  "newMetadata = \<lparr>m = [], prefixes = (\<lambda>_. []), queuedPrefixes = [], queuedRevision = 1,
                   injectedRevision = 0, reservedHostLabels = []\<rparr>"

text \<open>
  \<^verbatim>\<open>dequeuePrefixUpdates\<close>: copies the queued prefixes into a slice, replaces the queue
  by an empty map, reads the revision and then increments it (\<^verbatim>\<open>uint64\<close>, so the
  increment wraps).
\<close>

definition dequeuePrefixUpdates :: "metadata \<Rightarrow> (PrefixCluster list \<times> 64 word) \<times> metadata" where
  "dequeuePrefixUpdates q =
     ((queuedPrefixes q, queuedRevision q),
      q\<lparr>queuedPrefixes := [], queuedRevision := queuedRevision q + 1\<rparr>)"

text \<open>
  \<^verbatim>\<open>enqueuePrefixUpdates\<close>: \<^verbatim>\<open>m.queuedPrefixes[prefix] = struct{}{}\<close> for each
  argument, then returns \<^verbatim>\<open>m.queuedRevision\<close>.
\<close>

definition enqueuePrefixUpdates :: "PrefixCluster list \<Rightarrow> metadata \<Rightarrow> 64 word \<times> metadata" where
  "enqueuePrefixUpdates ps q =
     (queuedRevision q, q\<lparr>queuedPrefixes := fold List.insert ps (queuedPrefixes q)\<rparr>)"

text \<open>\<^verbatim>\<open>setInjectedRevision\<close>: \<^verbatim>\<open>m.injectedRevision = rev\<close> (and a broadcast).\<close>

definition setInjectedRevision :: "64 word \<Rightarrow> metadata \<Rightarrow> metadata" where
  "setInjectedRevision r q = q\<lparr>injectedRevision := r\<rparr>"

text \<open>The values \<open>injectedRevision\<close> takes over a sequence of calls, the first one included.\<close>

fun injectedTrace :: "64 word list \<Rightarrow> metadata \<Rightarrow> 64 word list" where
  "injectedTrace [] q = [injectedRevision q]"
| "injectedTrace (r # rs) q = injectedRevision q # injectedTrace rs (setInjectedRevision r q)"

text \<open>A run of enqueue calls, one per list of prefixes.\<close>

definition enqueueAll :: "PrefixCluster list list \<Rightarrow> metadata \<Rightarrow> metadata" where
  "enqueueAll pss q = fold (\<lambda>ps q'. snd (enqueuePrefixUpdates ps q')) pss q"

subsection \<open>Concrete inputs\<close>

text \<open>Concrete inputs for the examples: a dual-stack agent and the prefix 10.0.0.1/32.\<close>

definition exampleConfig :: config where
  "exampleConfig = \<lparr>PolicyCIDRMatchesNodes = False, PerNodeLabelsEnabled = False,
                     IsDualStack = True\<rparr>"

definition examplePrefix :: PrefixCluster where
  "examplePrefix = NewPrefixCluster \<lparr>ip = Addr4 0x0A000001, bitsPlusOne = 33\<rparr> 0"

definition exampleCIDRLabels :: "Prefix \<Rightarrow> Labels" where
  "exampleCIDRLabels p = [(''10.0.0.1/32'', \<lparr>Source = ''cidr'', Val = []\<rparr>)]"

subsection \<open>Contributions of a resource\<close>

text \<open>
  Modelled from the spec: \<^verbatim>\<open>source.Source\<close> is not under src/. The precedence is
  the total order of the specification, here as a rank (higher wins).
\<close>

fun sourceRank :: "source \<Rightarrow> nat" where
  "sourceRank KubeAPIServer = 5"
| "sourceRank Local = 4"
| "sourceRank CustomResource = 3"
| "sourceRank KVStore = 2"
| "sourceRank Generated = 1"
| "sourceRank Unspec = 0"

text \<open>
  Modelled from the spec: \<^verbatim>\<open>newPrefixInfo\<close> is not under src/; it is the entry of a
  prefix without contributions and without cached view. \<open>newResourceInfo\<close> is the
  literal \<^verbatim>\<open>&resourceInfo{source: src}\<close> of \<^verbatim>\<open>upsertLocked\<close>.
\<close>

definition newPrefixInfo :: prefixInfo where
  "newPrefixInfo = \<lparr>byResource = [], flattened = None\<rparr>"

definition newResourceInfo :: "source \<Rightarrow> resourceInfo" where
  "newResourceInfo src =
     \<lparr>labels = [], source = src, tunnelPeer = None, encryptKey = None, endpointFlags = None,
      identityOverride = False, requestedIdentity = None\<rparr>"

text \<open>Writes the entries of \<open>from\<close> whose key the receiver does not have yet.\<close>

definition fillLabels :: "Labels \<Rightarrow> Labels \<Rightarrow> Labels" where
  "fillLabels from lbls =
     fold (\<lambda>kv acc. if map_of acc (fst kv) = None then acc @ [kv] else acc) from lbls"

text \<open>
  Modelled from the spec: \<^verbatim>\<open>resourceInfo.merge\<close> is not under src/. The
  specification (4.2 and 3): it merges a fresh contribution into an existing one and
  returns whether anything changed; labels union by key; a scalar attribute accepts the
  other value when currently empty, otherwise the higher-precedence source is kept;
  \<open>identityOverride\<close> is sticky once set; where two sources disagree the higher
  precedence wins and equal precedence retains the first writer. The attributes of a
  resource are tagged with the one source of the resource: a contribution of a higher
  source overwrites (\<open>wins\<close>) and raises the source, any other contribution fills in what
  is absent.
\<close>

definition scalarMerge :: "bool \<Rightarrow> 'a \<Rightarrow> 'a option \<Rightarrow> 'a option" where
  "scalarMerge wins v cur = (if cur = None \<or> wins then Some v else cur)"

definition merge :: "IPMetadata \<Rightarrow> source \<Rightarrow> resourceInfo \<Rightarrow> resourceInfo \<times> bool" where
  "merge info src r =
     (let wins = (sourceRank (source r) < sourceRank src);
          r1 = (case info of
                  MLabels l \<Rightarrow>
                    r\<lparr>labels := (if wins then MergeLabels l (labels r)
                                  else fillLabels l (labels r))\<rparr>
                | MTunnelPeer t \<Rightarrow> r\<lparr>tunnelPeer := scalarMerge wins t (tunnelPeer r)\<rparr>
                | MEncryptKey k \<Rightarrow> r\<lparr>encryptKey := scalarMerge wins k (encryptKey r)\<rparr>
                | MEndpointFlags f \<Rightarrow> r\<lparr>endpointFlags := scalarMerge wins f (endpointFlags r)\<rparr>
                | MOverrideIdentity b \<Rightarrow> r\<lparr>identityOverride := (identityOverride r \<or> b)\<rparr>
                | MRequestedIdentity i \<Rightarrow>
                    r\<lparr>requestedIdentity := scalarMerge wins i (requestedIdentity r)\<rparr>);
          r2 = r1\<lparr>source := (if wins then src else source r)\<rparr>
      in (r2, r2 \<noteq> r))"

text \<open>
  The loop of \<^verbatim>\<open>upsertLocked\<close> over its metadata arguments:
  \<^verbatim>\<open>c := ...merge(m.logger, i, src); changed = changed || c\<close>.
\<close>

fun mergeAll :: "IPMetadata list \<Rightarrow> source \<Rightarrow> resourceInfo \<Rightarrow> resourceInfo \<times> bool" where
  "mergeAll [] src r = (r, False)"
| "mergeAll (i # infos) src r =
     (let (r1, c) = merge i src r;
          (r2, changed) = mergeAll infos src r1
      in (r2, c \<or> changed))"

text \<open>
  Modelled from the spec: \<^verbatim>\<open>resourceInfo.unmerge\<close> is not under src/. The
  specification: the inverse of merge, it subtracts labels and clears the scalars that
  match the contribution.
\<close>

definition scalarUnmerge :: "'a \<Rightarrow> 'a option \<Rightarrow> 'a option" where
  "scalarUnmerge v cur = (if cur = Some v then None else cur)"

definition unmerge :: "IPMetadata \<Rightarrow> resourceInfo \<Rightarrow> resourceInfo" where
  "unmerge info r =
     (case info of
        MLabels l \<Rightarrow> r\<lparr>labels := Remove l (labels r)\<rparr>
      | MTunnelPeer t \<Rightarrow> r\<lparr>tunnelPeer := scalarUnmerge t (tunnelPeer r)\<rparr>
      | MEncryptKey k \<Rightarrow> r\<lparr>encryptKey := scalarUnmerge k (encryptKey r)\<rparr>
      | MEndpointFlags f \<Rightarrow> r\<lparr>endpointFlags := scalarUnmerge f (endpointFlags r)\<rparr>
      | MOverrideIdentity b \<Rightarrow>
          r\<lparr>identityOverride := (if identityOverride r = b then False else identityOverride r)\<rparr>
      | MRequestedIdentity i \<Rightarrow>
          r\<lparr>requestedIdentity := scalarUnmerge i (requestedIdentity r)\<rparr>)"

text \<open>
  Modelled from the spec: the two \<^verbatim>\<open>isValid\<close> methods are not under src/. The
  specification: a resource's contribution is valid iff at least one of its labels,
  tunnel peer, encryption key, endpoint flags and identity override is non-empty; a
  prefix is deleted when \<open>byResource\<close> is empty.
\<close>

definition isValid :: "resourceInfo \<Rightarrow> bool" where
  "isValid r = (labels r \<noteq> [] \<or> tunnelPeer r \<noteq> None \<or> encryptKey r \<noteq> None
                \<or> endpointFlags r \<noteq> None \<or> identityOverride r)"

definition prefixInfo_isValid :: "prefixInfo \<Rightarrow> bool" where
  "prefixInfo_isValid info = (byResource info \<noteq> [])"

text \<open>
  Modelled from the spec: \<^verbatim>\<open>prefixInfo.flatten\<close> is not under src/. The
  specification (4.2): iterate \<open>byResource\<close> in source-precedence order (highest first),
  then by resource ID; merge the non-empty attributes into the accumulator, so that the
  higher precedence wins scalar conflicts and label keys of lower precedence fill only if
  absent; the result's source is the highest precedence among the contributors.
\<close>

fun strLe :: "string \<Rightarrow> string \<Rightarrow> bool" where
  "strLe [] _ = True"
| "strLe (x # xs) [] = False"
| "strLe (x # xs) (y # ys) =
     ((of_char x :: nat) < of_char y \<or> (x = y \<and> strLe xs ys))"

definition flattenBefore :: "string \<times> resourceInfo \<Rightarrow> string \<times> resourceInfo \<Rightarrow> bool" where
  "flattenBefore a b =
     (sourceRank (source (snd b)) < sourceRank (source (snd a))
      \<or> (sourceRank (source (snd a)) = sourceRank (source (snd b)) \<and> strLe (fst a) (fst b)))"

fun flattenInsert ::
  "string \<times> resourceInfo \<Rightarrow> (string \<times> resourceInfo) list \<Rightarrow> (string \<times> resourceInfo) list" where
  "flattenInsert a [] = [a]"
| "flattenInsert a (b # bs) = (if flattenBefore a b then a # b # bs else b # flattenInsert a bs)"

definition flattenOrder :: "(string \<times> resourceInfo) list \<Rightarrow> (string \<times> resourceInfo) list" where
  "flattenOrder rs = foldr flattenInsert rs []"

definition orElse :: "'a option \<Rightarrow> 'a option \<Rightarrow> 'a option" where
  "orElse a b = (case a of None \<Rightarrow> b | Some v \<Rightarrow> Some v)"

definition flattenStep :: "string \<times> resourceInfo \<Rightarrow> resourceInfo \<Rightarrow> resourceInfo" where
  "flattenStep kr acc =
     acc\<lparr>labels := fillLabels (labels (snd kr)) (labels acc),
         tunnelPeer := orElse (tunnelPeer acc) (tunnelPeer (snd kr)),
         encryptKey := orElse (encryptKey acc) (encryptKey (snd kr)),
         endpointFlags := orElse (endpointFlags acc) (endpointFlags (snd kr)),
         identityOverride := (identityOverride acc \<or> identityOverride (snd kr)),
         requestedIdentity := orElse (requestedIdentity acc) (requestedIdentity (snd kr))\<rparr>"

definition flatten :: "prefixInfo \<Rightarrow> resourceInfo" where
  "flatten info =
     (case flattenOrder (byResource info) of
        [] \<Rightarrow> newResourceInfo Unspec
      | kr # krs \<Rightarrow> fold flattenStep (kr # krs) (newResourceInfo (source (snd kr))))"

text \<open>
  Modelled from the spec: \<^verbatim>\<open>resourceInfo.has\<close> is not under src/. The source calls
  it on the cached flattened view (possibly nil) to see whether the upsert "has no effect
  on the flattened metadata": the view exists, has this source, and already holds every
  attribute given.
\<close>

definition hasInfo :: "resourceInfo \<Rightarrow> IPMetadata \<Rightarrow> bool" where
  "hasInfo f info =
     (case info of
        MLabels l \<Rightarrow> list_all (\<lambda>kv. map_of (labels f) (fst kv) = Some (snd kv)) l
      | MTunnelPeer t \<Rightarrow> tunnelPeer f = Some t
      | MEncryptKey k \<Rightarrow> encryptKey f = Some k
      | MEndpointFlags e \<Rightarrow> endpointFlags f = Some e
      | MOverrideIdentity b \<Rightarrow> identityOverride f = b
      | MRequestedIdentity i \<Rightarrow> requestedIdentity f = Some i)"

definition has :: "resourceInfo option \<Rightarrow> source \<Rightarrow> IPMetadata list \<Rightarrow> bool" where
  "has fl src infos =
     (case fl of None \<Rightarrow> False | Some f \<Rightarrow> source f = src \<and> list_all (hasInfo f) infos)"

text \<open>
  Modelled from the spec: \<^verbatim>\<open>resourceInfo.ToLabels\<close> is not under src/; it is the
  label set of the (possibly nil) \<^verbatim>\<open>*resourceInfo\<close>, empty for nil.
\<close>

definition ToLabels :: "resourceInfo option \<Rightarrow> Labels" where
  "ToLabels info = (case info of None \<Rightarrow> [] | Some r \<Rightarrow> labels r)"

subsection \<open>The per-cluster tries\<close>

text \<open>
  Modelled from the spec: \<^verbatim>\<open>bitlpm.CIDRTrieMap\<close> is not under src/. The
  specification (4.1): \<^verbatim>\<open>Upsert\<close> and \<^verbatim>\<open>Delete\<close> are idempotent, and
  \<^verbatim>\<open>Descendants\<close> "enumerates, in arbitrary order, all stored prefixes strictly
  contained in \<open>parent\<close> (or equal to it when \<open>parent\<close> is a host route)". A prefix is
  strictly contained in the parent when it is longer than the parent and its address,
  masked to the length of the parent, is the parent.
\<close>

definition trieUpsert :: "32 word \<Rightarrow> Prefix \<Rightarrow> (32 word \<Rightarrow> Prefix list) \<Rightarrow> (32 word \<Rightarrow> Prefix list)" where
  "trieUpsert c p tr = tr(c := List.insert p (tr c))"

definition trieDelete :: "32 word \<Rightarrow> Prefix \<Rightarrow> (32 word \<Rightarrow> Prefix list) \<Rightarrow> (32 word \<Rightarrow> Prefix list)" where
  "trieDelete c p tr = tr(c := removeAll p (tr c))"

definition strictlyContains :: "Prefix \<Rightarrow> Prefix \<Rightarrow> bool" where
  "strictlyContains parent child =
     (Bits parent < Bits child \<and> Addr_Prefix (ip child) (Bits parent) = (parent, None))"

definition isHostRoute :: "Prefix \<Rightarrow> bool" where
  "isHostRoute p = (IsValid p \<and> Bits p = int (BitLen (ip p)))"

definition Descendants :: "32 word \<Rightarrow> Prefix \<Rightarrow> (32 word \<Rightarrow> Prefix list) \<Rightarrow> Prefix list" where
  "Descendants c parent tr =
     filter (\<lambda>p. strictlyContains parent p \<or> (p = parent \<and> isHostRoute parent)) (tr c)"

subsection \<open>Upsert, lookup and removal\<close>

text \<open>\<^verbatim>\<open>findAffectedChildPrefixes\<close> (metadata.go:326).\<close>

definition findAffectedChildPrefixes :: "PrefixCluster \<Rightarrow> metadata \<Rightarrow> PrefixCluster list" where
  "findAffectedChildPrefixes parent s =
     (if IsSingleIP parent then [parent]
      else map (\<lambda>child. NewPrefixCluster child (ClusterID parent))
             (Descendants (ClusterID parent) (AsPrefix parent) (prefixes s)))"

text \<open>
  \<^verbatim>\<open>upsertLocked\<close> (metadata.go:227). The Go code mutates the \<open>prefixInfo\<close> and the
  \<open>resourceInfo\<close> behind their pointers; the model writes them back into the map. The
  result \<open>[]\<close> is the nil slice.
\<close>

definition upsertLocked ::
  "PrefixCluster \<Rightarrow> source \<Rightarrow> string \<Rightarrow> IPMetadata list \<Rightarrow> metadata
     \<Rightarrow> PrefixCluster list \<times> metadata" where
  "upsertLocked prefix0 src resource info s =
     (let prefix = canonicalPrefix prefix0;
          newPrefix = (map_of (m s) prefix = None);
          pi0 = (case map_of (m s) prefix of None \<Rightarrow> newPrefixInfo | Some pi \<Rightarrow> pi);
          tr = (if newPrefix
                then trieUpsert (ClusterID prefix) (AsPrefix prefix) (prefixes s)
                else prefixes s);
          newResource = (map_of (byResource pi0) resource = None);
          r0 = (case map_of (byResource pi0) resource of
                  None \<Rightarrow> newResourceInfo src | Some r \<Rightarrow> r);
          (r1, c) = mergeAll info src r0;
          changed = (newPrefix \<or> newResource \<or> c);
          pi1 = pi0\<lparr>byResource := AList.update resource r1 (byResource pi0)\<rparr>
      in if \<not> changed \<or> has (flattened pi1) src info
         then ([], s\<lparr>m := AList.update prefix pi1 (m s), prefixes := tr\<rparr>)
         else let s1 = s\<lparr>m := AList.update prefix (pi1\<lparr>flattened := None\<rparr>) (m s),
                           prefixes := tr\<rparr>
              in (findAffectedChildPrefixes prefix s1, s1))"

text \<open>
  \<^verbatim>\<open>getLocked\<close> (metadata.go:276): fills the cache of the flattened view when it is
  nil and returns a copy of it, or nil when the prefix has no entry.
\<close>

definition getLocked :: "PrefixCluster \<Rightarrow> metadata \<Rightarrow> resourceInfo option \<times> metadata" where
  "getLocked prefix s =
     (case map_of (m s) (canonicalPrefix prefix) of
        Some pi \<Rightarrow>
          (case flattened pi of
             None \<Rightarrow>
               (Some (flatten pi),
                s\<lparr>m := AList.update (canonicalPrefix prefix)
                           (pi\<lparr>flattened := Some (flatten pi)\<rparr>) (m s)\<rparr>)
           | Some f \<Rightarrow> (Some f, s))
      | None \<Rightarrow> (None, s))"

text \<open>\<^verbatim>\<open>remove\<close> (metadata.go:895).\<close>

definition remove ::
  "PrefixCluster \<Rightarrow> string \<Rightarrow> IPMetadata list \<Rightarrow> metadata \<Rightarrow> PrefixCluster list \<times> metadata" where
  "remove prefix0 resource aux s =
     (let prefix = canonicalPrefix prefix0 in
      case map_of (m s) prefix of
        None \<Rightarrow> ([], s)
      | Some info \<Rightarrow>
          (case map_of (byResource info) resource of
             None \<Rightarrow> ([], s)
           | Some r \<Rightarrow>
               let affected = findAffectedChildPrefixes prefix s;
                   r1 = fold unmerge aux r;
                   info1 = info\<lparr>byResource :=
                             (if \<not> isValid r1 then AList.delete resource (byResource info)
                              else AList.update resource r1 (byResource info))\<rparr>
               in if \<not> prefixInfo_isValid info1
                  then (affected,
                        s\<lparr>m := AList.delete prefix (m s),
                          prefixes := trieDelete (ClusterID prefix) (AsPrefix prefix) (prefixes s)\<rparr>)
                  else (affected,
                        s\<lparr>m := AList.update prefix (info1\<lparr>flattened := None\<rparr>) (m s)\<rparr>)))"


subsection \<open>Predicates and concrete inputs of the store theorems\<close>

text \<open>
  The invariant of the data model: a prefix is a key of the map \<open>m\<close> exactly when it is
  stored in the trie of its cluster.
\<close>

definition trieConsistent :: "metadata \<Rightarrow> bool" where
  "trieConsistent s =
     (\<forall>pc. (pc \<in> fst ` set (m s)) = (AsPrefix pc \<in> set (prefixes s (ClusterID pc))))"

text \<open>
  A contribution that the resource already holds: merging it again from the same source
  changes nothing.
\<close>

definition absorbed :: "IPMetadata \<Rightarrow> source \<Rightarrow> resourceInfo \<Rightarrow> bool" where
  "absorbed info src r =
     (\<not> sourceRank (source r) < sourceRank src \<and>
      (case info of
         MLabels l \<Rightarrow> fst ` set l \<subseteq> fst ` set (labels r)
       | MTunnelPeer t \<Rightarrow> tunnelPeer r \<noteq> None
       | MEncryptKey k \<Rightarrow> encryptKey r \<noteq> None
       | MEndpointFlags f \<Rightarrow> endpointFlags r \<noteq> None
       | MOverrideIdentity b \<Rightarrow> (identityOverride r \<or> \<not> b)
       | MRequestedIdentity i \<Rightarrow> requestedIdentity r \<noteq> None))"

text \<open>
  The zero \<^verbatim>\<open>netip.Prefix\<close> in cluster 0 (an invalid prefix), the labels
  \<^verbatim>\<open>k8s:app=web\<close>, and the store after the pod \<^verbatim>\<open>pod/A\<close> contributed them to
  10.0.0.1/32.
\<close>

definition invalidPrefix :: PrefixCluster where
  "invalidPrefix = NewPrefixCluster zeroPrefix 0"

text \<open>
  The prefixes that \<^verbatim>\<open>canonicalPrefix\<close> returns as they are, on either of its two
  "invalid prefix" paths (metadata.go:209 and 217): the prefixes that are not valid, and
  the valid ones whose unmapped address cannot take the prefix length. The prefix
  \<^verbatim>\<open>::ffff:10.1.2.3/128\<close> is of the second kind; \<open>mappedStore\<close> below is the store
  after the pod \<^verbatim>\<open>pod/A\<close> contributed the labels \<^verbatim>\<open>k8s:app=web\<close> to it.
\<close>

definition canonicalizationFails :: "PrefixCluster \<Rightarrow> bool" where
  "canonicalizationFails pc =
     (if IsValid (AsPrefix pc)
      then snd (Addr_Prefix (Unmap (ip (AsPrefix pc))) (Bits (AsPrefix pc))) \<noteq> None
      else True)"

definition mappedPrefix :: PrefixCluster where
  "mappedPrefix = NewPrefixCluster \<lparr>ip = Addr6 0xFFFF0A010203, bitsPlusOne = 129\<rparr> 0"

definition exampleLabels :: Labels where
  "exampleLabels = [(''app'', \<lparr>Source = ''k8s'', Val = ''web''\<rparr>)]"

definition exampleStore :: metadata where
  "exampleStore =
     snd (upsertLocked examplePrefix Local ''pod/A'' [MLabels exampleLabels] newMetadata)"

definition mappedStore :: metadata where
  "mappedStore =
     snd (upsertLocked mappedPrefix Local ''pod/A'' [MLabels exampleLabels] newMetadata)"

subsection \<open>Parent labels\<close>

text \<open>
  The inner loop of \<^verbatim>\<open>mergeParentLabels\<close> over the labels of one parent
  (\<^verbatim>\<open>for k, v := range info.ToLabels()\<close>), on the pair of \<^verbatim>\<open>lbls\<close> and
  \<^verbatim>\<open>hasCIDR\<close>: a \<^verbatim>\<open>cidr\<close> label is skipped once one is there, and a key is
  written only when \<^verbatim>\<open>lbls\<close> does not have it.
\<close>

fun mergeParentEntries :: "Labels \<Rightarrow> Labels \<times> bool \<Rightarrow> Labels \<times> bool" where
  "mergeParentEntries [] acc = acc"
| "mergeParentEntries (kv # kvs) (lbls, hasCIDR) =
     (if Source (snd kv) = LabelSourceCIDR \<and> hasCIDR
      then mergeParentEntries kvs (lbls, hasCIDR)
      else if map_of lbls (fst kv) = None
           then mergeParentEntries kvs
                  (AList.update (fst kv) (snd kv) lbls,
                   (if Source (snd kv) = LabelSourceCIDR then True else hasCIDR))
           else mergeParentEntries kvs (lbls, hasCIDR))"

text \<open>
  The parent of \<open>bits\<close> bits that the outer loop looks up:
  \<^verbatim>\<open>prefix.Addr().Unmap().Prefix(bits)\<close>, the error dropped, in the cluster of the
  prefix.
\<close>

definition parentPrefix :: "PrefixCluster \<Rightarrow> nat \<Rightarrow> PrefixCluster" where
  "parentPrefix prefixCluster bits =
     NewPrefixCluster (fst (Addr_Prefix (Unmap (ip (AsPrefix prefixCluster))) (int bits)))
       (ClusterID prefixCluster)"

text \<open>
  The outer loop \<^verbatim>\<open>for bits := prefix.Bits() - 1; bits >= 0; bits--\<close>: the first
  argument is the number of parents still to visit, so \<open>Suc bits\<close> visits the parent of
  \<open>bits\<close> bits and goes on downwards. \<^verbatim>\<open>getLocked\<close> may fill the cache of the parent.
\<close>

fun mergeParentLoop ::
  "nat \<Rightarrow> PrefixCluster \<Rightarrow> (Labels \<times> bool) \<times> metadata \<Rightarrow> (Labels \<times> bool) \<times> metadata" where
  "mergeParentLoop 0 prefixCluster st = st"
| "mergeParentLoop (Suc bits) prefixCluster (acc, s) =
     (case getLocked (parentPrefix prefixCluster bits) s of
        (None, s1) \<Rightarrow> mergeParentLoop bits prefixCluster (acc, s1)
      | (Some info, s1) \<Rightarrow>
          mergeParentLoop bits prefixCluster (mergeParentEntries (ToLabels (Some info)) acc, s1))"

text \<open>\<^verbatim>\<open>mergeParentLabels\<close> (metadata.go:298); the result is the map \<^verbatim>\<open>lbls\<close> after the call.\<close>

definition mergeParentLabels :: "Labels \<Rightarrow> PrefixCluster \<Rightarrow> metadata \<Rightarrow> Labels \<times> metadata" where
  "mergeParentLabels lbls prefixCluster s =
     (case mergeParentLoop (nat (Bits (AsPrefix prefixCluster))) prefixCluster
             ((lbls, HasSource LabelSourceCIDR lbls), s) of
        ((lbls1, hasCIDR), s1) \<Rightarrow> (lbls1, s1))"

text \<open>
  The flattened labels of the parent of \<open>bits\<close> bits, as \<^verbatim>\<open>getLocked\<close> returns them
  (empty when the parent has no entry), and the number of labels of the source
  \<^verbatim>\<open>cidr\<close> in a label set.
\<close>

definition ancestorLabels :: "PrefixCluster \<Rightarrow> metadata \<Rightarrow> nat \<Rightarrow> Labels" where
  "ancestorLabels prefixCluster s bits = ToLabels (fst (getLocked (parentPrefix prefixCluster bits) s))"

definition cidrCount :: "Labels \<Rightarrow> nat" where
  "cidrCount lbls = length (filter (\<lambda>kv. Source (snd kv) = LabelSourceCIDR) lbls)"


text \<open>
  Concrete inputs for the parent labels: 10.0.0.0/8 with the labels \<^verbatim>\<open>k8s:a=b\<close> and
  \<^verbatim>\<open>cidr:10.0.0.0/8\<close>, its child 10.1.1.0/24, a label set with two \<^verbatim>\<open>cidr\<close>
  labels, and the store that has 10.1.0.0/16 with the label \<^verbatim>\<open>cidr:10.1.0.0/16\<close>
  besides 10.0.0.0/8.
\<close>

definition parentExample :: PrefixCluster where
  "parentExample = NewPrefixCluster \<lparr>ip = Addr4 0x0A000000, bitsPlusOne = 9\<rparr> 0"

definition childExample :: PrefixCluster where
  "childExample = NewPrefixCluster \<lparr>ip = Addr4 0x0A010100, bitsPlusOne = 25\<rparr> 0"

definition parentStore :: metadata where
  "parentStore = snd (upsertLocked parentExample Local ''policy/P''
      [MLabels [(''a'', \<lparr>Source = ''k8s'', Val = ''b''\<rparr>),
                (''10.0.0.0/8'', \<lparr>Source = ''cidr'', Val = []\<rparr>)]] newMetadata)"

definition middleExample :: PrefixCluster where
  "middleExample = NewPrefixCluster \<lparr>ip = Addr4 0x0A010000, bitsPlusOne = 17\<rparr> 0"

definition twoParentStore :: metadata where
  "twoParentStore = snd (upsertLocked middleExample Local ''policy/Q''
      [MLabels [(''10.1.0.0/16'', \<lparr>Source = ''cidr'', Val = []\<rparr>)]] parentStore)"

definition twoCIDRLabels :: Labels where
  "twoCIDRLabels = [(''10.1.1.0/24'', \<lparr>Source = ''cidr'', Val = []\<rparr>),
                    (''10.1.0.0/16'', \<lparr>Source = ''cidr'', Val = []\<rparr>),
                    (''a'', \<lparr>Source = ''k8s'', Val = ''c''\<rparr>)]"

subsection \<open>Identities\<close>

text \<open>
  Modelled from the spec: package \<^verbatim>\<open>identity\<close> is not under src/.
  \<^verbatim>\<open>identity.Identity\<close> has the fields the file reads and writes (\<open>IDLabels\<close> is
  the Go field \<^verbatim>\<open>Labels\<close>). \<^verbatim>\<open>ReservedIdentityHost\<close> is the fixed numeric
  identity 1 of the host ("ID 1" in the comments of the file), \<^verbatim>\<open>InvalidIdentity\<close> is
  0, and \<^verbatim>\<open>AddReservedIdentityWithLabels\<close> returns the reserved identity with the given
  label set.
\<close>

record Identity =
  ID :: "32 word"
  IDLabels :: Labels
  CIDRLabel :: Labels

definition ReservedIdentityHost :: "32 word" where
  "ReservedIdentityHost = 1"

definition InvalidIdentity :: "32 word" where
  "InvalidIdentity = 0"

definition AddReservedIdentityWithLabels :: "32 word \<Rightarrow> Labels \<Rightarrow> Identity" where
  "AddReservedIdentityWithLabels ni lbls = \<lparr>ID = ni, IDLabels = lbls, CIDRLabel = []\<rparr>"

text \<open>
  \<^verbatim>\<open>updateReservedHostLabels\<close> (metadata.go:818): records (or, for nil labels,
  deletes) the labels of the prefix, then merges the labels of all recorded prefixes into
  a copy of \<^verbatim>\<open>reserved:host\<close>.
\<close>

definition updateReservedHostLabels ::
  "Prefix \<Rightarrow> Labels option \<Rightarrow> metadata \<Rightarrow> Identity \<times> metadata" where
  "updateReservedHostLabels prefix lbls s =
     (let rh = (case lbls of
                  None \<Rightarrow> AList.delete prefix (reservedHostLabels s)
                | Some l \<Rightarrow> AList.update prefix l (reservedHostLabels s));
          newLabels = fold (\<lambda>pl acc. MergeLabels (snd pl) acc) rh LabelHost
      in (AddReservedIdentityWithLabels ReservedIdentityHost newLabels,
          s\<lparr>reservedHostLabels := rh\<rparr>))"

text \<open>
  \<^verbatim>\<open>resolveIdentity\<close> (metadata.go:681). The identity allocator is a collaborator:
  \<open>AllocateLocalIdentity\<close> takes the labels, the requested identity and the allocator's
  state and returns an error or the identity with \<open>isNew\<close>, and the new state. The label
  \<^verbatim>\<open>cidr:<prefix>\<close> built from the text of the prefix is the parameter
  \<open>NewCIDRLabel\<close>.
\<close>

datatype AllocError = AllocError

definition resolveIdentity ::
  "config \<Rightarrow> (Prefix \<Rightarrow> Labels) \<Rightarrow> (PrefixCluster \<Rightarrow> Labels)
   \<Rightarrow> (Labels \<Rightarrow> 32 word \<Rightarrow> 'a \<Rightarrow> (AllocError + Identity \<times> bool) \<times> 'a)
   \<Rightarrow> PrefixCluster \<Rightarrow> resourceInfo \<Rightarrow> 'a \<times> metadata
   \<Rightarrow> (AllocError + Identity \<times> bool) \<times> 'a \<times> metadata" where
  "resolveIdentity cfg GetCIDRLabels NewCIDRLabel AllocateLocalIdentity prefix info st =
     (case st of (a, s) \<Rightarrow>
      if identityOverride info
      then (case AllocateLocalIdentity (ToLabels (Some info)) InvalidIdentity a of
              (res, a1) \<Rightarrow> (res, a1, s))
      else
        case mergeParentLabels (ToLabels (Some info)) prefix s of
          (lbls0, s1) \<Rightarrow>
            let lbls = resolveLabels cfg GetCIDRLabels lbls0 prefix in
            if ClusterID prefix = 0 \<and> HasHostLabel lbls
            then (case updateReservedHostLabels (AsPrefix prefix) (Some lbls) s1 of
                    (i, s2) \<Rightarrow> (Inr (i, False), a, s2))
            else (case AllocateLocalIdentity lbls
                         (case requestedIdentity info of None \<Rightarrow> InvalidIdentity | Some r \<Rightarrow> r) a of
                    (Inl err, a1) \<Rightarrow> (Inl err, a1, s1)
                  | (Inr (idn, isNew), a1) \<Rightarrow>
                      (Inr (if HasWorldLabel lbls then idn\<lparr>CIDRLabel := NewCIDRLabel prefix\<rparr>
                            else idn, isNew), a1, s1)))"

text \<open>
  The labels \<^verbatim>\<open>resolveIdentity\<close> works with when no identity override is set: the
  flattened labels with the parent labels merged in and the invariants of
  \<^verbatim>\<open>resolveLabels\<close> applied.
\<close>

definition resolvedLabels ::
  "config \<Rightarrow> (Prefix \<Rightarrow> Labels) \<Rightarrow> PrefixCluster \<Rightarrow> resourceInfo \<Rightarrow> metadata \<Rightarrow> Labels" where
  "resolvedLabels cfg GetCIDRLabels prefix info s =
     resolveLabels cfg GetCIDRLabels (fst (mergeParentLabels (ToLabels (Some info)) prefix s)) prefix"

text \<open>
  The identity \<^verbatim>\<open>updateReservedHostLabels\<close> returns when \<open>rh\<close> are the recorded
  labels, and the recorded labels after \<^verbatim>\<open>resolveIdentity\<close> took the host path for
  the prefix.
\<close>

definition hostIdentity :: "(Prefix \<times> Labels) list \<Rightarrow> Identity" where
  "hostIdentity rh =
     AddReservedIdentityWithLabels ReservedIdentityHost
       (fold (\<lambda>pl acc. MergeLabels (snd pl) acc) rh LabelHost)"

definition hostLabelsAfter ::
  "config \<Rightarrow> (Prefix \<Rightarrow> Labels) \<Rightarrow> PrefixCluster \<Rightarrow> resourceInfo \<Rightarrow> metadata
     \<Rightarrow> (Prefix \<times> Labels) list" where
  "hostLabelsAfter cfg GetCIDRLabels prefix info s =
     AList.update (AsPrefix prefix) (resolvedLabels cfg GetCIDRLabels prefix info s)
       (reservedHostLabels s)"

text \<open>
  Concrete inputs: the host address 192.168.1.1/32 with the labels \<^verbatim>\<open>reserved:host\<close>
  and \<^verbatim>\<open>node:role=cp\<close>, a store that already records the labels of another host
  address, and an allocator that fails and counts its calls.
\<close>

definition hostPrefix :: PrefixCluster where
  "hostPrefix = NewPrefixCluster \<lparr>ip = Addr4 0xC0A80101, bitsPlusOne = 33\<rparr> 0"

definition hostInfo :: resourceInfo where
  "hostInfo = (newResourceInfo Local)
     \<lparr>labels := [(''host'', reservedLabel), (''role'', \<lparr>Source = ''node'', Val = ''cp''\<rparr>)]\<rparr>"

definition hostStore :: metadata where
  "hostStore = newMetadata
     \<lparr>reservedHostLabels :=
        [(\<lparr>ip = Addr4 0x0A000001, bitsPlusOne = 33\<rparr>,
          [(''host'', reservedLabel), (''zone'', \<lparr>Source = ''k8s'', Val = ''a''\<rparr>)])]\<rparr>"

definition failingAllocator :: "Labels \<Rightarrow> 32 word \<Rightarrow> nat \<Rightarrow> (AllocError + Identity \<times> bool) \<times> nat" where
  "failingAllocator lbls requested calls = (Inl AllocError, Suc calls)"


subsection \<open>Removal of labels\<close>

text \<open>
  \<^verbatim>\<open>appendAPIServerLabelsForDeletion\<close> (metadata.go:843). \<^verbatim>\<open>lbls\<close> is a Go map:
  \<^verbatim>\<open>MergeLabels\<close> writes into the map of the caller, and the function returns that
  same map. The result is the map after the call.
\<close>

definition appendAPIServerLabelsForDeletion :: "Labels \<Rightarrow> Labels \<Rightarrow> Labels" where
  "appendAPIServerLabelsForDeletion lbls currentLabels =
     (if HasKubeAPIServerLabel currentLabels \<and> HasWorldLabel currentLabels
         \<and> length currentLabels = 2
      then MergeLabels LabelWorld lbls else lbls)"

text \<open>
  Modelled from the spec: \<^verbatim>\<open>Labels.SortedList\<close> is not under src/. The source
  compares the sorted lists with \<^verbatim>\<open>bytes.Contains\<close> and calls it a subset match; the
  specification has \<^verbatim>\<open>FilterByLabels\<close> return the prefixes whose flattened labels are
  a superset of the filter.
\<close>

definition labelsContain :: "Labels \<Rightarrow> Labels \<Rightarrow> bool" where
  "labelsContain lbls filterLabels =
     list_all (\<lambda>kv. map_of lbls (fst kv) = Some (snd kv)) filterLabels"

text \<open>
  \<^verbatim>\<open>filterByLabels\<close> (metadata.go:880): the loop over the keys of \<open>m\<close>, in the order
  of the iteration.
\<close>

fun filterByLabelsLoop ::
  "PrefixCluster list \<Rightarrow> Labels \<Rightarrow> metadata \<Rightarrow> PrefixCluster list \<times> metadata" where
  "filterByLabelsLoop [] filterLabels s = ([], s)"
| "filterByLabelsLoop (prefix # keys) filterLabels s =
     (case getLocked prefix s of
        (info, s1) \<Rightarrow>
          (case filterByLabelsLoop keys filterLabels s1 of
             (matching, s2) \<Rightarrow>
               (if labelsContain (ToLabels info) filterLabels then prefix # matching else matching,
                s2)))"

definition filterByLabels :: "Labels \<Rightarrow> metadata \<Rightarrow> PrefixCluster list \<times> metadata" where
  "filterByLabels filterLabels s = filterByLabelsLoop (map fst (m s)) filterLabels s"

text \<open>
  The loop of \<^verbatim>\<open>RemoveLabelsExcluded\<close> (metadata.go:865) over \<^verbatim>\<open>oldSet\<close>. Its
  state is the map \<^verbatim>\<open>lbls\<close> (the same map in every iteration: \<^verbatim>\<open>lblsToRemove\<close>
  is \<^verbatim>\<open>lbls\<close> itself), the affected prefixes, the store, and, for the statements
  about it, the list of the calls \<^verbatim>\<open>remove(ip, rid, lblsToRemove)\<close> made so far (the
  loop variable \<^verbatim>\<open>ip\<close> is \<open>prefix\<close> here).
\<close>

fun removeLabelsLoop ::
  "PrefixCluster list \<Rightarrow> PrefixCluster list \<Rightarrow> string
   \<Rightarrow> Labels \<times> PrefixCluster list \<times> (PrefixCluster \<times> Labels) list \<times> metadata
   \<Rightarrow> Labels \<times> PrefixCluster list \<times> (PrefixCluster \<times> Labels) list \<times> metadata" where
  "removeLabelsLoop [] toExclude rid st = st"
| "removeLabelsLoop (prefix # oldSet) toExclude rid (lbls, affectedPrefixes, calls, s) =
     (if prefix \<notin> set toExclude
      then (case getLocked prefix s of
              (info, s1) \<Rightarrow>
                let prefixLabels = ToLabels info;
                    lblsToRemove = appendAPIServerLabelsForDeletion lbls prefixLabels
                in (case remove prefix rid [MLabels lblsToRemove] s1 of
                      (affected, s2) \<Rightarrow>
                        removeLabelsLoop oldSet toExclude rid
                          (lblsToRemove, affectedPrefixes @ affected,
                           calls @ [(prefix, lblsToRemove)], s2)))
      else removeLabelsLoop oldSet toExclude rid (lbls, affectedPrefixes, calls, s))"

text \<open>
  \<^verbatim>\<open>RemoveLabelsExcluded\<close> (metadata.go:855). The result is the map \<^verbatim>\<open>lbls\<close> of
  the caller after the call, the calls to \<^verbatim>\<open>remove\<close> with their labels, and the store.
\<close>

definition RemoveLabelsExcluded ::
  "Labels \<Rightarrow> PrefixCluster list \<Rightarrow> string \<Rightarrow> metadata
   \<Rightarrow> Labels \<times> (PrefixCluster \<times> Labels) list \<times> metadata" where
  "RemoveLabelsExcluded lbls toExclude rid s =
     (case filterByLabels lbls s of
        (oldSet, s1) \<Rightarrow>
          (case removeLabelsLoop oldSet toExclude rid (lbls, [], [], s1) of
             (lbls1, affectedPrefixes, calls, s2) \<Rightarrow>
               (lbls1, calls, snd (enqueuePrefixUpdates affectedPrefixes s2))))"

text \<open>
  Concrete inputs: the API server addresses 10.0.0.1/32, whose labels are exactly
  \<^verbatim>\<open>reserved:kube-apiserver\<close> and \<^verbatim>\<open>reserved:world\<close>, and 10.0.0.2/32, which also
  has \<^verbatim>\<open>k8s:app=web\<close>; both contributed by the resource \<^verbatim>\<open>endpoints/kubernetes\<close>.
\<close>

definition apiServerLabel :: Labels where
  "apiServerLabel = [(''kube-apiserver'', reservedLabel)]"

definition apiServerPrefix2 :: PrefixCluster where
  "apiServerPrefix2 = NewPrefixCluster \<lparr>ip = Addr4 0x0A000002, bitsPlusOne = 33\<rparr> 0"

definition apiServerStore :: metadata where
  "apiServerStore =
     snd (upsertLocked apiServerPrefix2 KubeAPIServer ''endpoints/kubernetes''
            [MLabels [(''kube-apiserver'', reservedLabel), (''world'', reservedLabel),
                      (''app'', \<lparr>Source = ''k8s'', Val = ''web''\<rparr>)]]
       (snd (upsertLocked examplePrefix KubeAPIServer ''endpoints/kubernetes''
            [MLabels [(''kube-apiserver'', reservedLabel), (''world'', reservedLabel)]]
          newMetadata)))"


section \<open>Properties\<close>

subsection \<open>Helper lemmas\<close>

lemma set_fold_insert: "set (fold List.insert ps qs) = set ps \<union> set qs"
  by (induction ps arbitrary: qs) auto

lemma injectedTrace_eq: "injectedTrace rs q = injectedRevision q # rs"
  by (induction rs arbitrary: q) (simp_all add: setInjectedRevision_def)

lemma enqueueAll_queuedRevision: "queuedRevision (enqueueAll pss q) = queuedRevision q"
  unfolding enqueueAll_def
  by (induction pss arbitrary: q) (simp_all add: enqueuePrefixUpdates_def)

lemma enqueueAll_keeps: "set (queuedPrefixes q) \<subseteq> set (queuedPrefixes (enqueueAll pss q))"
  unfolding enqueueAll_def
proof (induction pss arbitrary: q)
  case Nil
  show ?case by simp
next
  case (Cons ps pss)
  have "set (queuedPrefixes q) \<subseteq> set (queuedPrefixes (snd (enqueuePrefixUpdates ps q)))"
    by (simp add: enqueuePrefixUpdates_def set_fold_insert)
  also have "\<dots> \<subseteq> set (queuedPrefixes (fold (\<lambda>ps q'. snd (enqueuePrefixUpdates ps q')) pss
                  (snd (enqueuePrefixUpdates ps q))))"
    by (rule Cons.IH)
  finally show ?case by simp
qed

subsection \<open>C5: the injected revision\<close>

text \<open>
  C5, as stated, fails: \<^verbatim>\<open>setInjectedRevision(r)\<close> does not take a maximum. After
  the revision 5 has been injected, \<^verbatim>\<open>setInjectedRevision(3)\<close> leaves 3, where
  \<open>max 5 3 = 5\<close>.
\<close>

theorem setInjectedRevision_not_max:
  "injectedRevision (setInjectedRevision 3 (setInjectedRevision 5 newMetadata))
     \<noteq> max (injectedRevision (setInjectedRevision 5 newMetadata)) 3"
  by (simp add: setInjectedRevision_def newMetadata_def)

text \<open>
  C5, amended: \<^verbatim>\<open>setInjectedRevision(r)\<close> sets the injected revision to \<open>r\<close> and
  changes nothing else of the store; the new value is \<open>max\<close> of the old one and \<open>r\<close>
  exactly when \<open>r\<close> is not below the old one; and the injected revision is non-decreasing
  over a sequence of calls exactly when the sequence of arguments, with the starting value
  in front, is non-decreasing.
\<close>

theorem setInjectedRevision_assigns:
  "injectedRevision (setInjectedRevision r q) = r
   \<and> queuedPrefixes (setInjectedRevision r q) = queuedPrefixes q
   \<and> queuedRevision (setInjectedRevision r q) = queuedRevision q
   \<and> (injectedRevision (setInjectedRevision r q) = max (injectedRevision q) r
        \<longleftrightarrow> injectedRevision q \<le> r)
   \<and> (sorted (injectedTrace rs q) \<longleftrightarrow> sorted (injectedRevision q # rs))
   \<and> m (setInjectedRevision r q) = m q
   \<and> prefixes (setInjectedRevision r q) = prefixes q
   \<and> reservedHostLabels (setInjectedRevision r q) = reservedHostLabels q"
  by (auto simp: setInjectedRevision_def injectedTrace_eq max_def)

subsection \<open>C6: enqueue and dequeue\<close>

text \<open>
  C6: \<^verbatim>\<open>enqueuePrefixUpdates\<close> adds its arguments to the queued set and returns the
  current \<open>queuedRevision\<close> without changing it (nor the injected revision);
  \<^verbatim>\<open>dequeuePrefixUpdates\<close> returns all queued prefixes with the current
  \<open>queuedRevision\<close>, empties the queue and increments \<open>queuedRevision\<close> by one
  (modulo \<open>2^64\<close>); and the prefixes enqueued under the returned revision \<open>r\<close> are, after
  any number of further enqueue calls, in the batch of the next dequeue, which returns
  the revision \<open>r\<close> itself. The other operations on the store (\<^verbatim>\<open>setInjectedRevision\<close>,
  \<^verbatim>\<open>getLocked\<close>, \<^verbatim>\<open>upsertLocked\<close>, \<^verbatim>\<open>remove\<close>) leave \<open>queuedRevision\<close> as
  it is.
\<close>

theorem enqueue_dequeue_revision:
  "fst (enqueuePrefixUpdates ps q) = queuedRevision q
   \<and> queuedRevision (snd (enqueuePrefixUpdates ps q)) = queuedRevision q
   \<and> injectedRevision (snd (enqueuePrefixUpdates ps q)) = injectedRevision q
   \<and> set (queuedPrefixes (snd (enqueuePrefixUpdates ps q))) = set ps \<union> set (queuedPrefixes q)
   \<and> fst (dequeuePrefixUpdates q) = (queuedPrefixes q, queuedRevision q)
   \<and> queuedPrefixes (snd (dequeuePrefixUpdates q)) = []
   \<and> queuedRevision (snd (dequeuePrefixUpdates q)) = queuedRevision q + 1
   \<and> injectedRevision (snd (dequeuePrefixUpdates q)) = injectedRevision q
   \<and> set ps \<subseteq> set (fst (fst (dequeuePrefixUpdates
                  (enqueueAll pss (snd (enqueuePrefixUpdates ps q))))))
   \<and> snd (fst (dequeuePrefixUpdates (enqueueAll pss (snd (enqueuePrefixUpdates ps q)))))
        = fst (enqueuePrefixUpdates ps q)
   \<and> fst (enqueuePrefixUpdates ps q)
        \<le> snd (fst (dequeuePrefixUpdates (enqueueAll pss (snd (enqueuePrefixUpdates ps q)))))
   \<and> queuedRevision (setInjectedRevision r q) = queuedRevision q
   \<and> queuedRevision (snd (getLocked p q)) = queuedRevision q
   \<and> queuedRevision (snd (upsertLocked p src rid infos q)) = queuedRevision q
   \<and> queuedRevision (snd (remove p rid aux q)) = queuedRevision q"
proof -
  let ?q1 = "snd (enqueuePrefixUpdates ps q)"
  have a: "set ps \<subseteq> set (queuedPrefixes ?q1)"
    by (simp add: enqueuePrefixUpdates_def set_fold_insert)
  have b: "set (queuedPrefixes ?q1) \<subseteq> set (queuedPrefixes (enqueueAll pss ?q1))"
    by (rule enqueueAll_keeps)
  have c: "queuedRevision (enqueueAll pss ?q1) = queuedRevision q"
    by (simp add: enqueueAll_queuedRevision enqueuePrefixUpdates_def)
  from a b have d: "set ps \<subseteq> set (queuedPrefixes (enqueueAll pss ?q1))"
    by (rule subset_trans)
  have e: "queuedRevision (setInjectedRevision r q) = queuedRevision q
      \<and> queuedRevision (snd (getLocked p q)) = queuedRevision q
      \<and> queuedRevision (snd (upsertLocked p src rid infos q)) = queuedRevision q
      \<and> queuedRevision (snd (remove p rid aux q)) = queuedRevision q"
    by (auto simp: setInjectedRevision_def getLocked_def upsertLocked_def remove_def Let_def
          split_beta split: option.splits)
  show ?thesis
    using c d e
    by (simp add: enqueuePrefixUpdates_def dequeuePrefixUpdates_def set_fold_insert)
qed

theorem enqueue_dequeue_revision_witness:
  "fst (enqueuePrefixUpdates [examplePrefix] newMetadata) = 1
   \<and> fst (dequeuePrefixUpdates (snd (enqueuePrefixUpdates [examplePrefix] newMetadata)))
       = ([examplePrefix], 1)
   \<and> queuedRevision (snd (dequeuePrefixUpdates
         (snd (enqueuePrefixUpdates [examplePrefix] newMetadata)))) = 2
   \<and> queuedRevision (snd (upsertLocked examplePrefix Local ''pod/A'' [] newMetadata)) = 1"
proof -
  have n: "queuedRevision newMetadata = 1" "queuedPrefixes newMetadata = []"
    by (simp_all add: newMetadata_def)
  show ?thesis
    using enqueue_dequeue_revision [where ps = "[examplePrefix]" and q = newMetadata
        and pss = "[]" and r = 0 and p = examplePrefix and src = Local and rid = "''pod/A''"
        and infos = "[]" and aux = "[]"] n
    by (simp add: enqueuePrefixUpdates_def dequeuePrefixUpdates_def enqueueAll_def)
qed

subsection \<open>C1: the label invariants of resolveLabels\<close>

lemma map_of_filter_key:
  "map_of (filter (\<lambda>kv. P (fst kv)) xs) k = (if P k then map_of xs k else None)"
  by (induction xs) auto

lemma map_of_Remove:
  "map_of (Remove from lbls) k = (if map_of from k = None then map_of lbls k else None)"
  unfolding Remove_def by (rule map_of_filter_key)

lemma map_of_filter_None: "map_of xs k = None \<Longrightarrow> map_of (filter P xs) k = None"
  by (induction xs) auto

lemma hasReserved_RemoveFromSource:
  "src \<noteq> LabelSourceReserved \<Longrightarrow> hasReserved k lbls
     \<Longrightarrow> hasReserved k (RemoveFromSource src lbls)"
  unfolding hasReserved_def RemoveFromSource_def
  by (induction lbls) (auto split: option.splits if_splits)

lemma hasReserved_Remove:
  "map_of from k = None \<Longrightarrow> hasReserved k lbls \<Longrightarrow> hasReserved k (Remove from lbls)"
  unfolding hasReserved_def by (simp add: map_of_Remove)

lemma hasReserved_nonempty: "hasReserved k lbls \<Longrightarrow> lbls \<noteq> []"
  unfolding hasReserved_def by auto

lemma resolveLabels_stripped:
  "resolveLabels cfg G lbls pc =
     (let l3 = strippedLabels cfg lbls;
          l4 = (if length l3 = 0 then MergeLabels (G (AsPrefix pc)) l3 else l3)
      in if \<not> (HasRemoteNodeLabel lbls \<or> HasHostLabel lbls \<or> HasHealthLabel lbls
                \<or> HasIngressLabel lbls)
         then AddWorldLabel cfg (ip (AsPrefix pc)) l4 else l4)"
  unfolding resolveLabels_def strippedLabels_def Let_def by simp

lemma stripped_keeps_reserved:
  assumes "hasReserved k lbls" "k \<notin> {''world'', ''world-ipv4'', ''world-ipv6''}"
  shows "hasReserved k (strippedLabels cfg lbls)"
  using assms
  unfolding strippedLabels_def Let_def
  by (auto intro!: hasReserved_RemoveFromSource hasReserved_Remove
       simp: LabelWorld_def LabelWorldIPv4_def LabelWorldIPv6_def LabelSourceCIDR_def
         LabelSourceFQDN_def LabelSourceCIDRGroup_def LabelSourceNode_def
         LabelSourceReserved_def)

lemma stripped_no_world:
  assumes "HasRemoteNodeLabel lbls \<or> HasHostLabel lbls \<or> HasHealthLabel lbls
           \<or> HasIngressLabel lbls"
  shows "map_of (strippedLabels cfg lbls) ''world'' = None"
    and "map_of (strippedLabels cfg lbls) ''world-ipv4'' = None"
    and "map_of (strippedLabels cfg lbls) ''world-ipv6'' = None"
  using assms unfolding strippedLabels_def Let_def RemoveFromSource_def
  by (auto intro!: map_of_filter_None
       simp: map_of_Remove LabelWorld_def LabelWorldIPv4_def LabelWorldIPv6_def)

lemma stripped_no_cidr:
  assumes "HasRemoteNodeLabel lbls \<or> HasHostLabel lbls \<or> HasHealthLabel lbls
           \<or> HasIngressLabel lbls"
      and "\<not> ((HasRemoteNodeLabel lbls \<or> HasHostLabel lbls) \<and> PolicyCIDRMatchesNodes cfg)"
  shows "\<not> HasSource LabelSourceCIDR (strippedLabels cfg lbls)"
    and "\<not> HasSource LabelSourceFQDN (strippedLabels cfg lbls)"
    and "\<not> HasSource LabelSourceCIDRGroup (strippedLabels cfg lbls)"
  using assms unfolding strippedLabels_def Let_def
  by (auto simp: HasSource_def RemoveFromSource_def list_ex_iff)

lemma stripped_nonempty:
  assumes "HasRemoteNodeLabel lbls \<or> HasHostLabel lbls \<or> HasHealthLabel lbls
           \<or> HasIngressLabel lbls"
  shows "strippedLabels cfg lbls \<noteq> []"
proof -
  from assms obtain k where k: "hasReserved k lbls"
      "k \<notin> {''world'', ''world-ipv4'', ''world-ipv6''}"
    unfolding HasRemoteNodeLabel_def HasHostLabel_def HasHealthLabel_def HasIngressLabel_def
    by fastforce
  then show ?thesis
    using stripped_keeps_reserved hasReserved_nonempty by blast
qed

lemma AddWorldLabel_lookup:
  "map_of (AddWorldLabel cfg a lbls) (worldKey cfg a) = Some reservedLabel"
  unfolding AddWorldLabel_def by (simp add: update_conv')

lemma update_nonempty: "AList.update k v al \<noteq> []"
  by (cases al) auto

text \<open>
  C1: when the labels mark the prefix as in-cluster (they carry \<^verbatim>\<open>reserved:host\<close>,
  \<^verbatim>\<open>reserved:remote-node\<close>, \<^verbatim>\<open>reserved:health\<close> or \<^verbatim>\<open>reserved:ingress\<close>), the
  result of \<^verbatim>\<open>resolveLabels\<close> has no label under the keys \<^verbatim>\<open>world\<close>,
  \<^verbatim>\<open>world-ipv4\<close> and \<^verbatim>\<open>world-ipv6\<close> and, unless the prefix is a node and
  \<^verbatim>\<open>PolicyCIDRMatchesNodes\<close> is on, no label of the sources \<^verbatim>\<open>cidr\<close>,
  \<^verbatim>\<open>fqdn\<close> and \<^verbatim>\<open>cidrgroup\<close>; when they do not, the result has the world label of
  the prefix's address family; the result is never empty; and when the removals leave no
  label, the result is the fallback \<^verbatim>\<open>GetCIDRLabels(prefix)\<close> with the world label
  added.
\<close>

theorem resolveLabels_invariants:
  "((HasRemoteNodeLabel lbls \<or> HasHostLabel lbls \<or> HasHealthLabel lbls \<or> HasIngressLabel lbls)
      \<longrightarrow>
      map_of (resolveLabels cfg G lbls pc) ''world'' = None
      \<and> map_of (resolveLabels cfg G lbls pc) ''world-ipv4'' = None
      \<and> map_of (resolveLabels cfg G lbls pc) ''world-ipv6'' = None
      \<and> (\<not> ((HasRemoteNodeLabel lbls \<or> HasHostLabel lbls) \<and> PolicyCIDRMatchesNodes cfg) \<longrightarrow>
           \<not> HasSource LabelSourceCIDR (resolveLabels cfg G lbls pc)
           \<and> \<not> HasSource LabelSourceFQDN (resolveLabels cfg G lbls pc)
           \<and> \<not> HasSource LabelSourceCIDRGroup (resolveLabels cfg G lbls pc)))
   \<and> (\<not> (HasRemoteNodeLabel lbls \<or> HasHostLabel lbls \<or> HasHealthLabel lbls
           \<or> HasIngressLabel lbls) \<longrightarrow>
        map_of (resolveLabels cfg G lbls pc) (worldKey cfg (ip (AsPrefix pc)))
          = Some reservedLabel)
   \<and> resolveLabels cfg G lbls pc \<noteq> []
   \<and> (strippedLabels cfg lbls = [] \<longrightarrow>
        resolveLabels cfg G lbls pc
          = AddWorldLabel cfg (ip (AsPrefix pc)) (MergeLabels (G (AsPrefix pc)) []))"
proof (cases "HasRemoteNodeLabel lbls \<or> HasHostLabel lbls \<or> HasHealthLabel lbls
              \<or> HasIngressLabel lbls")
  case True
  have ne: "strippedLabels cfg lbls \<noteq> []" using True by (rule stripped_nonempty)
  have eq: "resolveLabels cfg G lbls pc = strippedLabels cfg lbls"
    using True ne by (simp add: resolveLabels_stripped Let_def)
  show ?thesis
    using True ne stripped_no_world [OF True, of cfg] stripped_no_cidr [OF True, of cfg]
    unfolding eq by blast
next
  case False
  have eq: "resolveLabels cfg G lbls pc
      = AddWorldLabel cfg (ip (AsPrefix pc))
          (if length (strippedLabels cfg lbls) = 0
           then MergeLabels (G (AsPrefix pc)) (strippedLabels cfg lbls)
           else strippedLabels cfg lbls)"
    using False by (simp add: resolveLabels_stripped Let_def)
  show ?thesis
    using False unfolding eq
    by (auto simp: AddWorldLabel_lookup) (simp_all add: AddWorldLabel_def update_nonempty)
qed

lemmas label_defs =
  HasRemoteNodeLabel_def HasHostLabel_def HasHealthLabel_def HasIngressLabel_def
  HasWorldLabel_def HasKubeAPIServerLabel_def hasReserved_def reservedLabel_def
  LabelSourceReserved_def LabelSourceCIDR_def LabelSourceFQDN_def LabelSourceCIDRGroup_def
  LabelSourceNode_def LabelWorld_def LabelWorldIPv4_def LabelWorldIPv6_def LabelHost_def
  HasSource_def Remove_def RemoveFromSource_def MergeLabels_def AddWorldLabel_def worldKey_def

theorem resolveLabels_invariants_witness:
  "map_of (resolveLabels exampleConfig exampleCIDRLabels
            [(''host'', reservedLabel), (''world-ipv4'', reservedLabel),
             (''10.0.0.1/32'', \<lparr>Source = ''cidr'', Val = []\<rparr>)] examplePrefix) ''world-ipv4''
     = None
   \<and> \<not> HasSource LabelSourceCIDR (resolveLabels exampleConfig exampleCIDRLabels
            [(''host'', reservedLabel), (''world-ipv4'', reservedLabel),
             (''10.0.0.1/32'', \<lparr>Source = ''cidr'', Val = []\<rparr>)] examplePrefix)
   \<and> map_of (resolveLabels exampleConfig exampleCIDRLabels
            [(''app'', \<lparr>Source = ''k8s'', Val = ''web''\<rparr>)] examplePrefix) ''world-ipv4''
     = Some reservedLabel
   \<and> resolveLabels exampleConfig exampleCIDRLabels
        [(''role'', \<lparr>Source = ''node'', Val = ''cp''\<rparr>)] examplePrefix
     = [(''10.0.0.1/32'', \<lparr>Source = ''cidr'', Val = []\<rparr>), (''world-ipv4'', reservedLabel)]"
  using
    resolveLabels_invariants [of "[(''host'', reservedLabel), (''world-ipv4'', reservedLabel),
       (''10.0.0.1/32'', \<lparr>Source = ''cidr'', Val = []\<rparr>)]" exampleConfig exampleCIDRLabels
       examplePrefix]
    resolveLabels_invariants [of "[(''app'', \<lparr>Source = ''k8s'', Val = ''web''\<rparr>)]"
       exampleConfig exampleCIDRLabels examplePrefix]
    resolveLabels_invariants [of "[(''role'', \<lparr>Source = ''node'', Val = ''cp''\<rparr>)]"
       exampleConfig exampleCIDRLabels examplePrefix]
  by (simp add: label_defs strippedLabels_def exampleConfig_def examplePrefix_def
        exampleCIDRLabels_def NewPrefixCluster_def)

subsection \<open>Evaluation of the concrete inputs\<close>

lemmas netip_defs = canonicalPrefix_def IsValid_def Bits_def Addr_Prefix_def PrefixFrom_def
  zeroPrefix_def NewPrefixCluster_def IsSingleIP_def strictlyContains_def isHostRoute_def

lemmas store_defs = upsertLocked_def remove_def getLocked_def findAffectedChildPrefixes_def
  Descendants_def trieUpsert_def trieDelete_def newPrefixInfo_def newResourceInfo_def
  merge_def unmerge_def scalarMerge_def scalarUnmerge_def isValid_def prefixInfo_isValid_def
  has_def hasInfo_def ToLabels_def fillLabels_def newMetadata_def

lemma canonical_example: "canonicalPrefix examplePrefix = examplePrefix"
  by (simp add: netip_defs examplePrefix_def)

lemma exampleStore_m:
  "m exampleStore = [(examplePrefix,
      \<lparr>byResource = [(''pod/A'', \<lparr>labels = exampleLabels, source = Local, tunnelPeer = None,
           encryptKey = None, endpointFlags = None, identityOverride = False,
           requestedIdentity = None\<rparr>)], flattened = None\<rparr>)]"
  unfolding exampleStore_def
  by (simp add: canonical_example store_defs exampleLabels_def Let_def)

subsection \<open>C10: removing a contribution that was never made\<close>

text \<open>
  C10: when the canonical prefix has no entry in the map, or its entry has no
  contribution of the resource, \<^verbatim>\<open>remove\<close> returns nil and leaves the whole store
  (the map with every resource's contributions, the tries, the queue) as it was.
\<close>

theorem remove_absent_noop:
  "map_of (m s) (canonicalPrefix p) = None
   \<or> (\<exists>info. map_of (m s) (canonicalPrefix p) = Some info
              \<and> map_of (byResource info) rid = None)
   \<Longrightarrow> remove p rid aux s = ([], s)"
  by (auto simp: remove_def)

theorem remove_absent_noop_witness:
  "remove examplePrefix ''pod/B'' [MLabels exampleLabels] exampleStore = ([], exampleStore)
   \<and> remove invalidPrefix ''pod/A'' [MLabels exampleLabels] exampleStore = ([], exampleStore)"
  using remove_absent_noop [of exampleStore examplePrefix "''pod/B''" "[MLabels exampleLabels]"]
    remove_absent_noop [of exampleStore invalidPrefix "''pod/A''" "[MLabels exampleLabels]"]
  by (simp add: exampleStore_m canonical_example)
     (simp add: netip_defs invalidPrefix_def examplePrefix_def)

subsection \<open>C8: the map and the tries hold the same prefixes\<close>

lemma keys_upsertLocked:
  "fst ` set (m (snd (upsertLocked p src rid infos s)))
     = insert (canonicalPrefix p) (fst ` set (m s))"
  unfolding upsertLocked_def Let_def
  by (auto simp: dom_update split: prod.splits option.splits if_splits)

lemma trie_upsertLocked:
  "prefixes (snd (upsertLocked p src rid infos s))
     = (if map_of (m s) (canonicalPrefix p) = None
        then trieUpsert (ClusterID (canonicalPrefix p)) (AsPrefix (canonicalPrefix p))
               (prefixes s)
        else prefixes s)"
  unfolding upsertLocked_def Let_def
  by (auto split: prod.splits option.splits if_splits)

lemma PrefixCluster_eq_iff:
  "(pc = pc') = (AsPrefix pc = AsPrefix pc' \<and> ClusterID pc = ClusterID pc')"
  for pc pc' :: PrefixCluster
  by auto

lemma keys_delete: "fst ` set (AList.delete k al) = fst ` set al - {k}"
  by (induction al) auto

lemma upsertLocked_consistent:
  assumes "trieConsistent s"
  shows "trieConsistent (snd (upsertLocked p src rid infos s))"
proof (cases "map_of (m s) (canonicalPrefix p) = None")
  case True
  show ?thesis
    using assms True unfolding trieConsistent_def keys_upsertLocked trie_upsertLocked
    by (auto simp: trieUpsert_def PrefixCluster_eq_iff)
next
  case False
  then have "canonicalPrefix p \<in> fst ` set (m s)"
    by (simp add: map_of_eq_None_iff)
  then show ?thesis
    using assms False unfolding trieConsistent_def keys_upsertLocked trie_upsertLocked
    by (auto simp: insert_absorb)
qed

lemma remove_consistent:
  assumes "trieConsistent s"
  shows "trieConsistent (snd (remove p rid aux s))"
proof -
  have k: "canonicalPrefix p \<in> fst ` set (m s)"
    if "map_of (m s) (canonicalPrefix p) = Some info" for info
    using that by (metis map_of_eq_None_iff option.distinct(1))
  show ?thesis
    using assms k unfolding trieConsistent_def remove_def Let_def
    by (auto simp: dom_update keys_delete trieDelete_def PrefixCluster_eq_iff insert_absorb
          split: option.splits)
qed

text \<open>
  C8: the invariant "a prefix is a key of \<open>m\<close> iff it is stored in the trie of its
  cluster" is preserved by every \<^verbatim>\<open>upsertLocked\<close> and every \<^verbatim>\<open>remove\<close>.
\<close>

theorem trie_consistency_preserved:
  "trieConsistent s \<Longrightarrow>
     trieConsistent (snd (upsertLocked p src rid infos s))
     \<and> trieConsistent (snd (remove p rid aux s))"
  using upsertLocked_consistent remove_consistent by blast

theorem trie_consistency_preserved_witness:
  "trieConsistent newMetadata
   \<and> trieConsistent exampleStore
   \<and> trieConsistent (snd (remove examplePrefix ''pod/A'' [MLabels exampleLabels] exampleStore))"
proof -
  have a: "trieConsistent newMetadata"
    by (simp add: trieConsistent_def newMetadata_def)
  have b: "trieConsistent exampleStore"
    using trie_consistency_preserved [OF a] by (simp add: exampleStore_def)
  show ?thesis
    using a b trie_consistency_preserved [OF b] by simp
qed

subsection \<open>C7: upserting twice\<close>

lemma keys_fillLabels: "fst ` set (fillLabels l lbls) = fst ` set lbls \<union> fst ` set l"
  unfolding fillLabels_def
  by (induction l arbitrary: lbls) (auto simp: map_of_eq_None_iff)

lemma keys_MergeLabels: "fst ` set (MergeLabels l lbls) = fst ` set lbls \<union> fst ` set l"
  unfolding MergeLabels_def
  by (induction l arbitrary: lbls) (auto simp: dom_update)

lemma fillLabels_id: "fst ` set l \<subseteq> fst ` set lbls \<Longrightarrow> fillLabels l lbls = lbls"
  unfolding fillLabels_def
  by (induction l) (auto simp: map_of_eq_None_iff)

lemma absorbed_merge_id: "absorbed info src r \<Longrightarrow> merge info src r = (r, False)"
  unfolding absorbed_def merge_def Let_def scalarMerge_def
  by (cases info) (auto simp: fillLabels_id)

lemma merge_absorbs: "absorbed info src (fst (merge info src r))"
  unfolding absorbed_def merge_def Let_def scalarMerge_def
  by (cases info) (auto simp: keys_fillLabels keys_MergeLabels)

lemma merge_keeps_absorbed:
  assumes "absorbed info src r"
  shows "absorbed info src (fst (merge j src r))"
  using assms unfolding absorbed_def merge_def Let_def scalarMerge_def
  by (cases info; cases j) (auto simp: keys_fillLabels keys_MergeLabels)

lemma mergeAll_keeps_absorbed:
  "absorbed info src r \<Longrightarrow> absorbed info src (fst (mergeAll js src r))"
proof (induction js arbitrary: r)
  case Nil
  then show ?case by simp
next
  case (Cons j js)
  have "absorbed info src (fst (merge j src r))"
    using Cons.prems by (rule merge_keeps_absorbed)
  then have "absorbed info src (fst (mergeAll js src (fst (merge j src r))))"
    by (rule Cons.IH)
  then show ?case by (simp add: Let_def split_beta)
qed

lemma mergeAll_absorbs: "list_all (\<lambda>i. absorbed i src (fst (mergeAll infos src r))) infos"
proof (induction infos arbitrary: r)
  case Nil
  show ?case by simp
next
  case (Cons i infos)
  have "absorbed i src (fst (mergeAll infos src (fst (merge i src r))))"
    by (rule mergeAll_keeps_absorbed [OF merge_absorbs])
  then show ?case using Cons.IH [of "fst (merge i src r)"] by (simp add: Let_def split_beta)
qed

lemma mergeAll_absorbed_id:
  "list_all (\<lambda>i. absorbed i src r) infos \<Longrightarrow> mergeAll infos src r = (r, False)"
  by (induction infos) (auto simp: absorbed_merge_id)

lemma mergeAll_idem:
  "mergeAll infos src (fst (mergeAll infos src r)) = (fst (mergeAll infos src r), False)"
  by (rule mergeAll_absorbed_id [OF mergeAll_absorbs])

text \<open>
  C7: a second \<^verbatim>\<open>upsertLocked\<close> with the arguments of the first returns no affected
  prefix and leaves the store as the first call left it.
\<close>

theorem upsertLocked_idempotent:
  "fst (upsertLocked p src rid infos (snd (upsertLocked p src rid infos s))) = []
   \<and> snd (upsertLocked p src rid infos (snd (upsertLocked p src rid infos s)))
       = snd (upsertLocked p src rid infos s)"
proof -
  define prefix where "prefix = canonicalPrefix p"
  define pi0 where "pi0 = (case map_of (m s) prefix of None \<Rightarrow> newPrefixInfo | Some pi \<Rightarrow> pi)"
  define r0 where
    "r0 = (case map_of (byResource pi0) rid of None \<Rightarrow> newResourceInfo src | Some r \<Rightarrow> r)"
  define r1 where "r1 = fst (mergeAll infos src r0)"
  define s1 where "s1 = snd (upsertLocked p src rid infos s)"
  have "\<exists>pi1. map_of (m s1) prefix = Some pi1 \<and> map_of (byResource pi1) rid = Some r1"
    unfolding s1_def upsertLocked_def Let_def prefix_def pi0_def r0_def r1_def
    by (simp add: update_conv' split_beta)
  then obtain pi1 where pi1: "map_of (m s1) prefix = Some pi1"
      "map_of (byResource pi1) rid = Some r1"
    by blast
  have idem: "mergeAll infos src r1 = (r1, False)"
    unfolding r1_def by (rule mergeAll_idem)
  have "upsertLocked p src rid infos s1 = ([], s1)"
    unfolding upsertLocked_def Let_def
    using pi1 idem by (simp add: prefix_def [symmetric] update_triv)
  then show ?thesis by (simp add: s1_def)
qed

theorem upsertLocked_idempotent_witness:
  "fst (upsertLocked examplePrefix Local ''pod/A'' [MLabels exampleLabels] newMetadata)
     = [examplePrefix]
   \<and> upsertLocked examplePrefix Local ''pod/A'' [MLabels exampleLabels] exampleStore
     = ([], exampleStore)"
proof -
  have "fst (upsertLocked examplePrefix Local ''pod/A'' [MLabels exampleLabels] newMetadata)
          = [examplePrefix]"
    by (simp add: canonical_example store_defs exampleLabels_def Let_def)
       (simp add: netip_defs examplePrefix_def)
  then show ?thesis
    using upsertLocked_idempotent [of examplePrefix Local "''pod/A''" "[MLabels exampleLabels]"
        newMetadata]
    by (simp add: exampleStore_def prod_eq_iff)
qed

subsection \<open>C4: invalid prefixes\<close>

text \<open>
  C4, as stated, fails: \<^verbatim>\<open>upsertLocked\<close> does not check the prefix. On the empty
  store, upserting the zero prefix (invalid, returned unchanged by
  \<^verbatim>\<open>canonicalPrefix\<close>) creates an entry for it in the map and stores it in the trie
  of cluster 0. Upserting \<^verbatim>\<open>::ffff:10.1.2.3/128\<close> (valid, but returned unchanged by
  \<^verbatim>\<open>canonicalPrefix\<close> on its second "invalid prefix" path) stores it too and returns
  it as affected, and removing the contribution again returns it as affected.
\<close>

theorem upsertLocked_invalid_inserted:
  "\<not> IsValid (AsPrefix invalidPrefix)
   \<and> canonicalPrefix invalidPrefix = invalidPrefix
   \<and> map_of (m newMetadata) invalidPrefix = None
   \<and> prefixes newMetadata 0 = []
   \<and> map_of (m (snd (upsertLocked invalidPrefix Local ''pod/A'' [MLabels exampleLabels]
                       newMetadata))) invalidPrefix
      = Some \<lparr>byResource = [(''pod/A'', \<lparr>labels = exampleLabels, source = Local,
           tunnelPeer = None, encryptKey = None, endpointFlags = None,
           identityOverride = False, requestedIdentity = None\<rparr>)], flattened = None\<rparr>
   \<and> prefixes (snd (upsertLocked invalidPrefix Local ''pod/A'' [MLabels exampleLabels]
                      newMetadata)) 0
      = [zeroPrefix]
   \<and> IsValid (AsPrefix mappedPrefix)
   \<and> canonicalPrefix mappedPrefix = mappedPrefix
   \<and> map_of (m newMetadata) mappedPrefix = None
   \<and> fst (upsertLocked mappedPrefix Local ''pod/A'' [MLabels exampleLabels] newMetadata)
      = [mappedPrefix]
   \<and> map_of (m mappedStore) mappedPrefix
      = Some \<lparr>byResource = [(''pod/A'', \<lparr>labels = exampleLabels, source = Local,
           tunnelPeer = None, encryptKey = None, endpointFlags = None,
           identityOverride = False, requestedIdentity = None\<rparr>)], flattened = None\<rparr>
   \<and> prefixes mappedStore 0 = [AsPrefix mappedPrefix]
   \<and> fst (remove mappedPrefix ''pod/A'' [MLabels exampleLabels] mappedStore) = [mappedPrefix]"
proof -
  have a: "\<not> IsValid (AsPrefix invalidPrefix)
   \<and> canonicalPrefix invalidPrefix = invalidPrefix
   \<and> map_of (m newMetadata) invalidPrefix = None
   \<and> prefixes newMetadata 0 = []
   \<and> map_of (m (snd (upsertLocked invalidPrefix Local ''pod/A'' [MLabels exampleLabels]
                       newMetadata))) invalidPrefix
      = Some \<lparr>byResource = [(''pod/A'', \<lparr>labels = exampleLabels, source = Local,
           tunnelPeer = None, encryptKey = None, endpointFlags = None,
           identityOverride = False, requestedIdentity = None\<rparr>)], flattened = None\<rparr>
   \<and> prefixes (snd (upsertLocked invalidPrefix Local ''pod/A'' [MLabels exampleLabels]
                      newMetadata)) 0
      = [zeroPrefix]"
    by (simp add: netip_defs store_defs invalidPrefix_def exampleLabels_def Let_def)
  have b1: "IsValid (AsPrefix mappedPrefix)" by code_simp
  have b2: "canonicalPrefix mappedPrefix = mappedPrefix" by code_simp
  have b3: "map_of (m newMetadata) mappedPrefix = None" by (simp add: newMetadata_def)
  have b4: "fst (upsertLocked mappedPrefix Local ''pod/A'' [MLabels exampleLabels] newMetadata)
      = [mappedPrefix]" by code_simp
  have b5: "map_of (m mappedStore) mappedPrefix
      = Some \<lparr>byResource = [(''pod/A'', \<lparr>labels = exampleLabels, source = Local,
           tunnelPeer = None, encryptKey = None, endpointFlags = None,
           identityOverride = False, requestedIdentity = None\<rparr>)], flattened = None\<rparr>"
    by code_simp
  have b6: "prefixes mappedStore 0 = [AsPrefix mappedPrefix]" by code_simp
  have b7: "fst (remove mappedPrefix ''pod/A'' [MLabels exampleLabels] mappedStore) = [mappedPrefix]"
    by code_simp
  show ?thesis using a b1 b2 b3 b4 b5 b6 b7 by simp
qed

lemma canonicalPrefix_fails: "canonicalizationFails pc \<Longrightarrow> canonicalPrefix pc = pc"
  by (auto simp: canonicalizationFails_def canonicalPrefix_def Let_def
        split: if_splits prod.splits option.splits)

lemma findAffected_single: "IsSingleIP pc \<Longrightarrow> findAffectedChildPrefixes pc s = [pc]"
  by (simp add: findAffectedChildPrefixes_def)

lemma upsertLocked_new_affected:
  "map_of (m s) (canonicalPrefix p) = None \<Longrightarrow>
     fst (upsertLocked p src rid infos s)
       = findAffectedChildPrefixes (canonicalPrefix p) (snd (upsertLocked p src rid infos s))"
  unfolding upsertLocked_def Let_def
  by (simp add: split_beta newPrefixInfo_def has_def)

lemma upsertLocked_affected:
  "fst (upsertLocked p src rid infos s) = []
   \<or> fst (upsertLocked p src rid infos s)
       = findAffectedChildPrefixes (canonicalPrefix p) (snd (upsertLocked p src rid infos s))"
  unfolding upsertLocked_def Let_def
  by (simp add: split_beta)

lemma remove_affected:
  "map_of (m s) (canonicalPrefix p) = Some info \<Longrightarrow> map_of (byResource info) rid = Some r \<Longrightarrow>
     fst (remove p rid aux s) = findAffectedChildPrefixes (canonicalPrefix p) s"
  unfolding remove_def Let_def by simp

lemma remove_no_contribution:
  "map_of (m s) (canonicalPrefix p) = Some info \<Longrightarrow> map_of (byResource info) rid = None \<Longrightarrow>
     remove p rid aux s = ([], s)"
  unfolding remove_def Let_def by simp

text \<open>
  C4, amended: for a prefix that fails canonicalization (it is not valid, or its unmapped
  address cannot take the prefix length), \<^verbatim>\<open>canonicalPrefix\<close> returns the prefix
  unchanged and both operations work on that key. \<^verbatim>\<open>upsertLocked\<close> is not a no-op:
  after it the prefix is a key of the map; when it had no entry before, it has been
  stored in the trie of its cluster and the result is what
  \<^verbatim>\<open>findAffectedChildPrefixes\<close> gives for it on the new store; when it had an entry,
  the tries are unchanged and the result is nil or what \<^verbatim>\<open>findAffectedChildPrefixes\<close>
  gives. \<^verbatim>\<open>remove\<close> is a no-op returning nil when the prefix has no entry or the
  resource no contribution to it; otherwise it returns what
  \<^verbatim>\<open>findAffectedChildPrefixes\<close> gives on the store before the removal. For a single
  IP that is the prefix itself, so a new single IP that fails canonicalization is
  returned as affected by \<^verbatim>\<open>upsertLocked\<close>, and by \<^verbatim>\<open>remove\<close> when the resource
  has a contribution to it.
\<close>

theorem invalid_prefix_operations:
  "canonicalizationFails pc \<Longrightarrow>
     canonicalPrefix pc = pc
     \<and> fst ` set (m (snd (upsertLocked pc src rid infos s))) = insert pc (fst ` set (m s))
     \<and> (fst (upsertLocked pc src rid infos s) = []
        \<or> fst (upsertLocked pc src rid infos s)
            = findAffectedChildPrefixes pc (snd (upsertLocked pc src rid infos s)))
     \<and> (map_of (m s) pc = None \<longrightarrow>
          remove pc rid aux s = ([], s)
          \<and> prefixes (snd (upsertLocked pc src rid infos s))
              = trieUpsert (ClusterID pc) (AsPrefix pc) (prefixes s)
          \<and> fst (upsertLocked pc src rid infos s)
              = findAffectedChildPrefixes pc (snd (upsertLocked pc src rid infos s)))
     \<and> (\<forall>info. map_of (m s) pc = Some info \<longrightarrow>
          prefixes (snd (upsertLocked pc src rid infos s)) = prefixes s
          \<and> (map_of (byResource info) rid = None \<longrightarrow> remove pc rid aux s = ([], s))
          \<and> (map_of (byResource info) rid \<noteq> None \<longrightarrow>
               fst (remove pc rid aux s) = findAffectedChildPrefixes pc s))
     \<and> (IsSingleIP pc \<longrightarrow>
          (\<forall>s'. findAffectedChildPrefixes pc s' = [pc])
          \<and> (map_of (m s) pc = None \<longrightarrow> fst (upsertLocked pc src rid infos s) = [pc])
          \<and> (\<forall>info. map_of (m s) pc = Some info \<and> map_of (byResource info) rid \<noteq> None
                \<longrightarrow> fst (remove pc rid aux s) = [pc]))"
proof -
  assume inv: "canonicalizationFails pc"
  have c: "canonicalPrefix pc = pc" using inv by (rule canonicalPrefix_fails)
  have k: "fst ` set (m (snd (upsertLocked pc src rid infos s))) = insert pc (fst ` set (m s))"
    using keys_upsertLocked [of pc src rid infos s] by (simp add: c)
  have u: "fst (upsertLocked pc src rid infos s) = []
        \<or> fst (upsertLocked pc src rid infos s)
            = findAffectedChildPrefixes pc (snd (upsertLocked pc src rid infos s))"
    using upsertLocked_affected [of pc src rid infos s] by (simp add: c)
  have n: "remove pc rid aux s = ([], s)" if "map_of (m s) pc = None"
    using that by (simp add: remove_def c)
  have t: "prefixes (snd (upsertLocked pc src rid infos s))
             = trieUpsert (ClusterID pc) (AsPrefix pc) (prefixes s)" if "map_of (m s) pc = None"
    using that trie_upsertLocked [of pc src rid infos s] by (simp add: c)
  have un: "fst (upsertLocked pc src rid infos s)
              = findAffectedChildPrefixes pc (snd (upsertLocked pc src rid infos s))"
    if "map_of (m s) pc = None"
    using that upsertLocked_new_affected [of s pc src rid infos] by (simp add: c)
  have t': "prefixes (snd (upsertLocked pc src rid infos s)) = prefixes s"
    if "map_of (m s) pc = Some info" for info
    using that trie_upsertLocked [of pc src rid infos s] by (simp add: c)
  have r0: "remove pc rid aux s = ([], s)"
    if "map_of (m s) pc = Some info" "map_of (byResource info) rid = None" for info
    using that remove_no_contribution [of s pc info rid aux] by (simp add: c)
  have r1: "fst (remove pc rid aux s) = findAffectedChildPrefixes pc s"
    if "map_of (m s) pc = Some info" "map_of (byResource info) rid \<noteq> None" for info
    using that remove_affected [of s pc info rid _ aux] by (auto simp: c)
  have f: "findAffectedChildPrefixes pc s' = [pc]" if "IsSingleIP pc" for s'
    using that by (rule findAffected_single)
  have c1: "map_of (m s) pc = None \<longrightarrow>
          remove pc rid aux s = ([], s)
          \<and> prefixes (snd (upsertLocked pc src rid infos s))
              = trieUpsert (ClusterID pc) (AsPrefix pc) (prefixes s)
          \<and> fst (upsertLocked pc src rid infos s)
              = findAffectedChildPrefixes pc (snd (upsertLocked pc src rid infos s))"
    using n t un by simp
  have c2: "\<forall>info. map_of (m s) pc = Some info \<longrightarrow>
          prefixes (snd (upsertLocked pc src rid infos s)) = prefixes s
          \<and> (map_of (byResource info) rid = None \<longrightarrow> remove pc rid aux s = ([], s))
          \<and> (map_of (byResource info) rid \<noteq> None \<longrightarrow>
               fst (remove pc rid aux s) = findAffectedChildPrefixes pc s)"
    using t' r0 r1 by simp
  have c3: "IsSingleIP pc \<longrightarrow>
          (\<forall>s'. findAffectedChildPrefixes pc s' = [pc])
          \<and> (map_of (m s) pc = None \<longrightarrow> fst (upsertLocked pc src rid infos s) = [pc])
          \<and> (\<forall>info. map_of (m s) pc = Some info \<and> map_of (byResource info) rid \<noteq> None
                \<longrightarrow> fst (remove pc rid aux s) = [pc])"
    using f un r1 by simp
  show ?thesis using c k u c1 c2 c3 by (intro conjI)
qed

theorem invalid_prefix_operations_witness:
  "canonicalPrefix invalidPrefix = invalidPrefix
   \<and> fst ` set (m (snd (upsertLocked invalidPrefix Local ''pod/A'' [MLabels exampleLabels]
                         newMetadata))) = {invalidPrefix}
   \<and> remove invalidPrefix ''pod/A'' [MLabels exampleLabels] newMetadata = ([], newMetadata)
   \<and> prefixes (snd (upsertLocked invalidPrefix Local ''pod/A'' [MLabels exampleLabels]
                      newMetadata))
      = trieUpsert 0 zeroPrefix (prefixes newMetadata)
   \<and> canonicalPrefix mappedPrefix = mappedPrefix
   \<and> fst ` set (m mappedStore) = {mappedPrefix}
   \<and> fst (upsertLocked mappedPrefix Local ''pod/A'' [MLabels exampleLabels] newMetadata)
      = [mappedPrefix]
   \<and> remove mappedPrefix ''pod/A'' [MLabels exampleLabels] newMetadata = ([], newMetadata)
   \<and> remove mappedPrefix ''pod/B'' [MLabels exampleLabels] mappedStore = ([], mappedStore)
   \<and> fst (remove mappedPrefix ''pod/A'' [MLabels exampleLabels] mappedStore) = [mappedPrefix]"
proof -
  have inv: "canonicalizationFails invalidPrefix" "canonicalizationFails mappedPrefix"
    by code_simp+
  have e: "map_of (m newMetadata) invalidPrefix = None" "fst ` set (m newMetadata) = {}"
    "map_of (m newMetadata) mappedPrefix = None"
    "ClusterID invalidPrefix = 0" "AsPrefix invalidPrefix = zeroPrefix"
    by (simp_all add: newMetadata_def invalidPrefix_def NewPrefixCluster_def)
  have i: "IsSingleIP mappedPrefix" by code_simp
  have ms: "map_of (m mappedStore) mappedPrefix
      = Some \<lparr>byResource = [(''pod/A'', \<lparr>labels = exampleLabels, source = Local,
           tunnelPeer = None, encryptKey = None, endpointFlags = None,
           identityOverride = False, requestedIdentity = None\<rparr>)], flattened = None\<rparr>"
    by code_simp
  note A = invalid_prefix_operations [OF inv(1), of Local "''pod/A''" "[MLabels exampleLabels]"
        newMetadata "[MLabels exampleLabels]"]
  note B = invalid_prefix_operations [OF inv(2), of Local "''pod/A''" "[MLabels exampleLabels]"
        newMetadata "[MLabels exampleLabels]"]
  note C = invalid_prefix_operations [OF inv(2), of Local "''pod/B''" "[MLabels exampleLabels]"
        mappedStore "[MLabels exampleLabels]"]
  note D = invalid_prefix_operations [OF inv(2), of Local "''pod/A''" "[MLabels exampleLabels]"
        mappedStore "[MLabels exampleLabels]"]
  have w1: "canonicalPrefix invalidPrefix = invalidPrefix" using A by (rule conjunct1)
  have w2: "fst ` set (m (snd (upsertLocked invalidPrefix Local ''pod/A'' [MLabels exampleLabels]
                         newMetadata))) = {invalidPrefix}"
    using A [THEN conjunct2, THEN conjunct1] e by simp
  have w34: "remove invalidPrefix ''pod/A'' [MLabels exampleLabels] newMetadata = ([], newMetadata)
     \<and> prefixes (snd (upsertLocked invalidPrefix Local ''pod/A'' [MLabels exampleLabels]
                      newMetadata))
      = trieUpsert 0 zeroPrefix (prefixes newMetadata)"
    using A [THEN conjunct2, THEN conjunct2, THEN conjunct2, THEN conjunct1] e by simp
  have w5: "canonicalPrefix mappedPrefix = mappedPrefix" using B by (rule conjunct1)
  have w6: "fst ` set (m mappedStore) = {mappedPrefix}"
    using B [THEN conjunct2, THEN conjunct1] e by (simp add: mappedStore_def)
  have w7: "fst (upsertLocked mappedPrefix Local ''pod/A'' [MLabels exampleLabels] newMetadata)
      = [mappedPrefix]"
    using B [THEN conjunct2, THEN conjunct2, THEN conjunct2, THEN conjunct2, THEN conjunct2] e i
    by simp
  have w8: "remove mappedPrefix ''pod/A'' [MLabels exampleLabels] newMetadata = ([], newMetadata)"
    using B [THEN conjunct2, THEN conjunct2, THEN conjunct2, THEN conjunct1] e by simp
  have w9: "remove mappedPrefix ''pod/B'' [MLabels exampleLabels] mappedStore = ([], mappedStore)"
    using C [THEN conjunct2, THEN conjunct2, THEN conjunct2, THEN conjunct2, THEN conjunct1] ms
    by simp
  have w10: "fst (remove mappedPrefix ''pod/A'' [MLabels exampleLabels] mappedStore) = [mappedPrefix]"
    using D [THEN conjunct2, THEN conjunct2, THEN conjunct2, THEN conjunct2, THEN conjunct2] ms i
    by simp
  show ?thesis using w1 w2 w34 w5 w6 w7 w8 w9 w10 by simp
qed

subsection \<open>C2: labels inherited from the parents\<close>

lemma update_absent: "map_of al k = None \<Longrightarrow> AList.update k v al = al @ [(k, v)]"
  by (induction al) (auto split: if_splits)

lemma getLocked_view:
  "fst (getLocked q (snd (getLocked p s))) = fst (getLocked q s)"
  unfolding getLocked_def
  by (auto simp: update_conv' split: option.splits)

lemma mergeParentEntries_append:
  "mergeParentEntries (xs @ ys) acc = mergeParentEntries ys (mergeParentEntries xs acc)"
  by (induction xs acc rule: mergeParentEntries.induct) auto

lemma getLocked_fst_cong:
  assumes "\<And>q. fst (getLocked q s') = fst (getLocked q s)"
  shows "fst (getLocked q (snd (getLocked p s'))) = fst (getLocked q s)"
  using assms getLocked_view by simp

lemma mergeParentLoop_fold:
  assumes "\<And>q. fst (getLocked q s') = fst (getLocked q s)"
  shows "fst (mergeParentLoop n pc (acc, s'))
           = mergeParentEntries (concat (map (ancestorLabels pc s) (rev [0..<n]))) acc"
  using assms
proof (induction n arbitrary: acc s')
  case 0
  show ?case by simp
next
  case (Suc n)
  obtain info s1 where g: "getLocked (parentPrefix pc n) s' = (info, s1)"
    by (cases "getLocked (parentPrefix pc n) s'")
  have info: "info = fst (getLocked (parentPrefix pc n) s)"
    using g Suc.prems [of "parentPrefix pc n"] by simp
  have view: "fst (getLocked q s1) = fst (getLocked q s)" for q
    using getLocked_fst_cong [OF Suc.prems, of q "parentPrefix pc n"] g by simp
  have anc: "ancestorLabels pc s n = ToLabels info"
    by (simp add: ancestorLabels_def info)
  show ?case
  proof (cases info)
    case None
    then show ?thesis
      using g Suc.IH [OF view, of acc] anc
      by (simp add: ToLabels_def mergeParentEntries_append)
  next
    case (Some i)
    then show ?thesis
      using g Suc.IH [OF view, of "mergeParentEntries (ToLabels (Some i)) acc"] anc
      by (simp add: mergeParentEntries_append)
  qed
qed

lemma mergeParentLabels_entries:
  "fst (mergeParentLabels lbls pc s)
     = fst (mergeParentEntries
         (concat (map (ancestorLabels pc s) (rev [0..<nat (Bits (AsPrefix pc))])))
         (lbls, HasSource LabelSourceCIDR lbls))"
proof -
  have "fst (mergeParentLoop (nat (Bits (AsPrefix pc))) pc ((lbls, HasSource LabelSourceCIDR lbls), s))
      = mergeParentEntries (concat (map (ancestorLabels pc s) (rev [0..<nat (Bits (AsPrefix pc))])))
          (lbls, HasSource LabelSourceCIDR lbls)"
    by (rule mergeParentLoop_fold) simp
  then show ?thesis
    unfolding mergeParentLabels_def by (simp split: prod.splits) (metis fst_conv)
qed

lemma mpe_keeps:
  "map_of lbls k = Some v \<Longrightarrow> map_of (fst (mergeParentEntries es (lbls, h))) k = Some v"
proof (induction es arbitrary: lbls h)
  case Nil
  then show ?case by simp
next
  case (Cons kv es)
  show ?case
  proof (cases "fst kv = k")
    case True
    then have "map_of lbls (fst kv) \<noteq> None" using Cons.prems by simp
    then show ?thesis using Cons.IH [OF Cons.prems] by auto
  next
    case False
    then have u: "map_of (AList.update (fst kv) (snd kv) lbls) k = Some v"
      using Cons.prems by (simp add: update_conv')
    show ?thesis using Cons.IH [OF Cons.prems] Cons.IH [OF u] by auto
  qed
qed

lemma mpe_prefix: "\<exists>added. fst (mergeParentEntries es (lbls, h)) = lbls @ added"
proof (induction es arbitrary: lbls h)
  case Nil
  show ?case by simp
next
  case (Cons kv es)
  show ?case
  proof (cases "\<not> (Source (snd kv) = LabelSourceCIDR \<and> h) \<and> map_of lbls (fst kv) = None")
    case True
    obtain added where "fst (mergeParentEntries es (lbls @ [kv], (if Source (snd kv) = LabelSourceCIDR then True else h)))
        = (lbls @ [kv]) @ added"
      using Cons.IH by blast
    then show ?thesis using True by (auto simp: update_absent)
  next
    case False
    then show ?thesis using Cons.IH [of lbls h] by auto
  qed
qed

lemma mpe_origin:
  assumes "map_of (fst (mergeParentEntries es (lbls, h))) k = Some v" "map_of lbls k = None"
  shows "\<exists>es1 es2. es = es1 @ (k, v) # es2
           \<and> list_all (\<lambda>kv. fst kv \<noteq> k \<or> Source (snd kv) = LabelSourceCIDR) es1"
  using assms
proof (induction es arbitrary: lbls h)
  case Nil
  then show ?case by simp
next
  case (Cons kv es)
  consider (skip) "Source (snd kv) = LabelSourceCIDR \<and> h"
    | (add) "\<not> (Source (snd kv) = LabelSourceCIDR \<and> h)" "map_of lbls (fst kv) = None"
    | (present) "\<not> (Source (snd kv) = LabelSourceCIDR \<and> h)" "map_of lbls (fst kv) \<noteq> None"
    by blast
  then show ?case
  proof cases
    case skip
    then have "map_of (fst (mergeParentEntries es (lbls, h))) k = Some v"
      using Cons.prems(1) by simp
    from Cons.IH [OF this Cons.prems(2)] obtain es1 es2 where
      "es = es1 @ (k, v) # es2" "list_all (\<lambda>kv. fst kv \<noteq> k \<or> Source (snd kv) = LabelSourceCIDR) es1"
      by blast
    then have "kv # es = (kv # es1) @ (k, v) # es2
        \<and> list_all (\<lambda>kv. fst kv \<noteq> k \<or> Source (snd kv) = LabelSourceCIDR) (kv # es1)"
      using skip by simp
    then show ?thesis by blast
  next
    case add
    let ?h = "(if Source (snd kv) = LabelSourceCIDR then True else h)"
    have r: "map_of (fst (mergeParentEntries es (AList.update (fst kv) (snd kv) lbls, ?h))) k = Some v"
      using Cons.prems(1) add by simp
    show ?thesis
    proof (cases "fst kv = k")
      case True
      have "map_of (AList.update (fst kv) (snd kv) lbls) k = Some (snd kv)"
        using True by (simp add: update_conv')
      then have "map_of (fst (mergeParentEntries es (AList.update (fst kv) (snd kv) lbls, ?h))) k = Some (snd kv)"
        by (rule mpe_keeps)
      then have "v = snd kv" using r by simp
      then have "kv # es = [] @ (k, v) # es" using True by (cases kv) simp
      then show ?thesis by (intro exI [of _ "[]"] exI [of _ es]) simp
    next
      case False
      then have "map_of (AList.update (fst kv) (snd kv) lbls) k = None"
        using Cons.prems(2) by (simp add: update_conv')
      from Cons.IH [OF r this] obtain es1 es2 where
        "es = es1 @ (k, v) # es2" "list_all (\<lambda>kv. fst kv \<noteq> k \<or> Source (snd kv) = LabelSourceCIDR) es1"
        by blast
      then have "kv # es = (kv # es1) @ (k, v) # es2
          \<and> list_all (\<lambda>kv. fst kv \<noteq> k \<or> Source (snd kv) = LabelSourceCIDR) (kv # es1)"
        using False by simp
      then show ?thesis by blast
    qed
  next
    case present
    then have ne: "fst kv \<noteq> k" using Cons.prems(2) by auto
    have "map_of (fst (mergeParentEntries es (lbls, h))) k = Some v"
      using Cons.prems(1) present by auto
    from Cons.IH [OF this Cons.prems(2)] obtain es1 es2 where
      "es = es1 @ (k, v) # es2" "list_all (\<lambda>kv. fst kv \<noteq> k \<or> Source (snd kv) = LabelSourceCIDR) es1"
      by blast
    then have "kv # es = (kv # es1) @ (k, v) # es2
        \<and> list_all (\<lambda>kv. fst kv \<noteq> k \<or> Source (snd kv) = LabelSourceCIDR) (kv # es1)"
      using ne by simp
    then show ?thesis by blast
  qed
qed

lemma mpe_keys_mono:
  "map_of lbls k \<noteq> None \<Longrightarrow> map_of (fst (mergeParentEntries es (lbls, h))) k \<noteq> None"
  using mpe_keeps by fastforce

lemma mpe_superset:
  assumes "(k, v) \<in> set es" "Source v \<noteq> LabelSourceCIDR"
  shows "map_of (fst (mergeParentEntries es (lbls, h))) k \<noteq> None"
  using assms
proof (induction es arbitrary: lbls h)
  case Nil
  then show ?case by simp
next
  case (Cons kv es)
  show ?case
  proof (cases "kv = (k, v)")
    case True
    show ?thesis
    proof (cases "map_of lbls k = None")
      case absent: True
      have "map_of (AList.update k v lbls) k \<noteq> None" by (simp add: update_conv')
      then have "map_of (fst (mergeParentEntries es (AList.update k v lbls, h))) k \<noteq> None"
        by (rule mpe_keys_mono)
      then show ?thesis
        using True absent Cons.prems(2) by simp
    next
      case False
      then have "map_of (fst (mergeParentEntries es (lbls, h))) k \<noteq> None"
        by (rule mpe_keys_mono)
      then show ?thesis
        using True False Cons.prems(2) by auto
    qed
  next
    case False
    then have "(k, v) \<in> set es" using Cons.prems(1) by simp
    then show ?thesis
      using Cons.IH Cons.prems(2) by simp
  qed
qed

lemma mpe_cidr_le:
  assumes "h = (0 < cidrCount lbls)"
  shows "cidrCount (fst (mergeParentEntries es (lbls, h))) \<le> max 1 (cidrCount lbls)"
  using assms
proof (induction es arbitrary: lbls h)
  case Nil
  then show ?case by simp
next
  case (Cons kv es)
  consider (skip) "Source (snd kv) = LabelSourceCIDR \<and> h"
    | (add) "\<not> (Source (snd kv) = LabelSourceCIDR \<and> h)" "map_of lbls (fst kv) = None"
    | (present) "\<not> (Source (snd kv) = LabelSourceCIDR \<and> h)" "map_of lbls (fst kv) \<noteq> None"
    by blast
  then show ?case
  proof cases
    case skip
    then show ?thesis using Cons.IH [OF Cons.prems] by simp
  next
    case add
    let ?l = "AList.update (fst kv) (snd kv) lbls"
    let ?h = "(if Source (snd kv) = LabelSourceCIDR then True else h)"
    have c: "cidrCount ?l = cidrCount lbls + (if Source (snd kv) = LabelSourceCIDR then 1 else 0)"
      using add(2) by (simp add: update_absent cidrCount_def)
    have inv: "?h = (0 < cidrCount ?l)"
      using Cons.prems c by auto
    show ?thesis
      using Cons.IH [OF inv] add c Cons.prems by (auto split: if_splits)
  next
    case present
    then show ?thesis using Cons.IH [OF Cons.prems] by auto
  qed
qed

lemma mpe_cidr_same:
  "filter (\<lambda>kv. Source (snd kv) = LabelSourceCIDR) (fst (mergeParentEntries es (lbls, True)))
     = filter (\<lambda>kv. Source (snd kv) = LabelSourceCIDR) lbls"
proof (induction es arbitrary: lbls)
  case Nil
  show ?case by simp
next
  case (Cons kv es)
  show ?case
  proof (cases "Source (snd kv) \<noteq> LabelSourceCIDR \<and> map_of lbls (fst kv) = None")
    case True
    then show ?thesis
      using Cons.IH [of "AList.update (fst kv) (snd kv) lbls"] by (simp add: update_absent)
  next
    case False
    then show ?thesis using Cons.IH [of lbls] by auto
  qed
qed

lemma HasSource_cidrCount: "HasSource LabelSourceCIDR lbls = (0 < cidrCount lbls)"
  unfolding HasSource_def cidrCount_def
  by (induction lbls) auto

lemma concat_rev_split:
  assumes "concat (map f (rev [0..<n])) = es1 @ x # es2"
  shows "\<exists>b<n. x \<in> set (f b) \<and> (\<forall>b'. b < b' \<and> b' < n \<longrightarrow> set (f b') \<subseteq> set es1)"
  using assms
proof (induction n arbitrary: es1)
  case 0
  then show ?case by simp
next
  case (Suc n)
  then have eq: "f n @ concat (map f (rev [0..<n])) = es1 @ x # es2" by simp
  then consider (here) us where "f n = es1 @ us" "x # es2 = us @ concat (map f (rev [0..<n]))" "us \<noteq> []"
    | (later) us where "es1 = f n @ us" "concat (map f (rev [0..<n])) = us @ x # es2"
    by (auto simp: append_eq_append_conv2 append_eq_Cons_conv Cons_eq_append_conv) 
  then show ?case
  proof cases
    case here
    then have "x \<in> set (f n)" by (cases us) auto
    then show ?thesis by (intro exI [of _ n]) auto
  next
    case later
    from Suc.IH [OF later(2)] obtain b where b: "b < n" "x \<in> set (f b)"
        "\<forall>b'. b < b' \<and> b' < n \<longrightarrow> set (f b') \<subseteq> set us"
      by blast
    have "set (f b') \<subseteq> set es1" if "b < b'" "b' < Suc n" for b'
    proof (cases "b' = n")
      case True
      then show ?thesis using later(1) by simp
    next
      case False
      then show ?thesis using that b(3) later(1) by auto
    qed
    then show ?thesis using b(1,2) by (intro exI [of _ b]) auto
  qed
qed

lemma Bits_Addr_Prefix: "Bits (fst (Addr_Prefix a (int b))) \<le> int b"
  by (auto simp: Addr_Prefix_def Bits_def zeroPrefix_def PrefixFrom_def split: Addr.splits)

lemma parentPrefix_shorter:
  "b < nat (Bits (AsPrefix pc)) \<Longrightarrow> Bits (AsPrefix (parentPrefix pc b)) < Bits (AsPrefix pc)"
  using Bits_Addr_Prefix [of "Unmap (ip (AsPrefix pc))" b]
  by (simp add: parentPrefix_def NewPrefixCluster_def)

lemma parentPrefix_contains:
  assumes "IsValid (AsPrefix pc)" and "Unmap (ip (AsPrefix pc)) = ip (AsPrefix pc)"
      and "ip (AsPrefix pc) \<noteq> AddrZero"
      and "Bits (AsPrefix pc) \<le> int (BitLen (ip (AsPrefix pc)))"
      and "b < nat (Bits (AsPrefix pc))"
  shows "strictlyContains (AsPrefix (parentPrefix pc b)) (AsPrefix pc)"
  using assms
  by (cases "ip (AsPrefix pc)")
     (auto simp: strictlyContains_def parentPrefix_def NewPrefixCluster_def Addr_Prefix_def
        IsValid_def Bits_def PrefixFrom_def)

lemma cidrCount_0_noncidr:
  "cidrCount lbls = 0 \<Longrightarrow> (k, w) \<in> set lbls \<Longrightarrow> Source w \<noteq> LabelSourceCIDR"
  unfolding cidrCount_def by (auto simp: filter_empty_conv)

lemma mpe_cidr_first:
  assumes "cidrCount lbls = 0"
      and "(k, v) \<in> set (fst (mergeParentEntries es (lbls, False)))"
      and "Source v = LabelSourceCIDR"
  shows "\<exists>es1 es2. es = es1 @ (k, v) # es2
           \<and> list_all (\<lambda>kv. Source (snd kv) = LabelSourceCIDR \<longrightarrow>
                 (\<exists>w. map_of (fst (mergeParentEntries es (lbls, False))) (fst kv) = Some w
                      \<and> Source w \<noteq> LabelSourceCIDR)) es1"
  using assms
proof (induction es arbitrary: lbls)
  case Nil
  then show ?case using cidrCount_0_noncidr by fastforce
next
  case (Cons kv es)
  let ?R = "fst (mergeParentEntries (kv # es) (lbls, False))"
  let ?P = "\<lambda>kv. Source (snd kv) = LabelSourceCIDR \<longrightarrow>
                 (\<exists>w. map_of ?R (fst kv) = Some w \<and> Source w \<noteq> LabelSourceCIDR)"
  show ?case
  proof (cases "map_of lbls (fst kv) = None")
    case absent: True
    show ?thesis
    proof (cases "Source (snd kv) = LabelSourceCIDR")
      case True
      have R: "?R = fst (mergeParentEntries es (lbls @ [kv], True))"
        using absent True by (simp add: update_absent)
      have "filter (\<lambda>kv. Source (snd kv) = LabelSourceCIDR) ?R
              = filter (\<lambda>kv. Source (snd kv) = LabelSourceCIDR) (lbls @ [kv])"
        unfolding R by (rule mpe_cidr_same)
      also have "\<dots> = [kv]"
        using Cons.prems(1) True by (simp add: cidrCount_def)
      finally have "filter (\<lambda>kv. Source (snd kv) = LabelSourceCIDR) ?R = [kv]" .
      moreover have "(k, v) \<in> set (filter (\<lambda>kv. Source (snd kv) = LabelSourceCIDR) ?R)"
        using Cons.prems(2,3) by simp
      ultimately have "kv = (k, v)" by simp
      then have "kv # es = [] @ (k, v) # es \<and> list_all ?P []" by simp
      then show ?thesis by blast
    next
      case False
      have R: "?R = fst (mergeParentEntries es (lbls @ [kv], False))"
        using absent False by (simp add: update_absent)
      have c: "cidrCount (lbls @ [kv]) = 0"
        using Cons.prems(1) False by (simp add: cidrCount_def)
      from Cons.IH [OF c Cons.prems(2) [unfolded R] Cons.prems(3)]
      obtain es1 es2 where e: "es = es1 @ (k, v) # es2" "list_all ?P es1"
        unfolding R by blast
      have "kv # es = (kv # es1) @ (k, v) # es2 \<and> list_all ?P (kv # es1)"
        using e False by simp
      then show ?thesis by blast
    qed
  next
    case present: False
    then obtain w where w: "map_of lbls (fst kv) = Some w" by auto
    have R: "?R = fst (mergeParentEntries es (lbls, False))"
      using present by auto
    from Cons.IH [OF Cons.prems(1) Cons.prems(2) [unfolded R] Cons.prems(3)]
    obtain es1 es2 where e: "es = es1 @ (k, v) # es2" "list_all ?P es1"
      unfolding R by blast
    have "Source w \<noteq> LabelSourceCIDR"
      using cidrCount_0_noncidr [OF Cons.prems(1)] map_of_SomeD [OF w] by blast
    moreover have "map_of ?R (fst kv) = Some w"
      using w by (rule mpe_keeps)
    ultimately have "?P kv" by blast
    then have "kv # es = (kv # es1) @ (k, v) # es2 \<and> list_all ?P (kv # es1)"
      using e by simp
    then show ?thesis by blast
  qed
qed

lemma mpe_cidr_exists:
  assumes "h = (0 < cidrCount lbls)" and "(k, v) \<in> set es" and "Source v = LabelSourceCIDR"
  shows "0 < cidrCount (fst (mergeParentEntries es (lbls, h)))
         \<or> (\<exists>w. map_of (fst (mergeParentEntries es (lbls, h))) k = Some w
                 \<and> Source w \<noteq> LabelSourceCIDR)"
  using assms
proof (induction es arbitrary: lbls h)
  case Nil
  then show ?case by simp
next
  case (Cons kv es)
  show ?case
  proof (cases h)
    case True
    have "cidrCount (fst (mergeParentEntries (kv # es) (lbls, True))) = cidrCount lbls"
      unfolding cidrCount_def by (simp only: mpe_cidr_same)
    then show ?thesis using True Cons.prems(1) by simp
  next
    case False
    then have c0: "cidrCount lbls = 0" using Cons.prems(1) by simp
    show ?thesis
    proof (cases "map_of lbls (fst kv) = None")
      case absent: True
      show ?thesis
      proof (cases "Source (snd kv) = LabelSourceCIDR")
        case True
        have R: "fst (mergeParentEntries (kv # es) (lbls, h))
                   = fst (mergeParentEntries es (lbls @ [kv], True))"
          using absent True False by (simp add: update_absent)
        have "cidrCount (fst (mergeParentEntries es (lbls @ [kv], True))) = cidrCount (lbls @ [kv])"
          unfolding cidrCount_def by (simp only: mpe_cidr_same)
        then show ?thesis unfolding R using True by (simp add: cidrCount_def)
      next
        case nc: False
        have R: "fst (mergeParentEntries (kv # es) (lbls, h))
                   = fst (mergeParentEntries es (lbls @ [kv], False))"
          using absent nc False by (simp add: update_absent)
        have c: "False = (0 < cidrCount (lbls @ [kv]))"
          using c0 nc by (simp add: cidrCount_def)
        have "(k, v) \<in> set es" using Cons.prems(2,3) nc by auto
        from Cons.IH [OF c this Cons.prems(3)] show ?thesis unfolding R .
      qed
    next
      case present: False
      then obtain w where w: "map_of lbls (fst kv) = Some w" by auto
      have R: "fst (mergeParentEntries (kv # es) (lbls, h))
                 = fst (mergeParentEntries es (lbls, False))"
        using present False by auto
      show ?thesis
      proof (cases "kv = (k, v)")
        case True
        have "Source w \<noteq> LabelSourceCIDR"
          using cidrCount_0_noncidr [OF c0] map_of_SomeD [OF w] by blast
        moreover have "map_of (fst (mergeParentEntries es (lbls, False))) k = Some w"
          using w True by (auto intro: mpe_keeps)
        ultimately show ?thesis unfolding R by blast
      next
        case ne: False
        then have "(k, v) \<in> set es" using Cons.prems(2) by simp
        from Cons.IH [OF _ this Cons.prems(3), of False lbls] c0 show ?thesis unfolding R by simp
      qed
    qed
  qed
qed

text \<open>
  C2, as stated, fails in two places. \<^verbatim>\<open>mergeParentLabels\<close> only adds labels, so a
  label set that comes with two \<^verbatim>\<open>cidr\<close> labels keeps both; and a key the child
  already has is not overwritten, so the parent's label under that key (here
  \<^verbatim>\<open>k8s:a=b\<close> of 10.0.0.0/8, against \<^verbatim>\<open>k8s:a=c\<close> of the child 10.1.1.0/24) is
  not in the child's labels.
\<close>

theorem mergeParentLabels_keeps_two_cidr:
  "cidrCount (fst (mergeParentLabels twoCIDRLabels childExample parentStore)) = 2
   \<and> (''a'', \<lparr>Source = ''k8s'', Val = ''b''\<rparr>) \<in> set (ancestorLabels childExample parentStore 8)
   \<and> (''a'', \<lparr>Source = ''k8s'', Val = ''b''\<rparr>)
        \<notin> set (fst (mergeParentLabels twoCIDRLabels childExample parentStore))
   \<and> map_of (fst (mergeParentLabels twoCIDRLabels childExample parentStore)) ''a''
        = Some \<lparr>Source = ''k8s'', Val = ''c''\<rparr>"
  by code_simp

text \<open>
  C2, amended: \<^verbatim>\<open>mergeParentLabels\<close> keeps every key of \<^verbatim>\<open>lbls\<close> with its
  label; every key it adds comes, with its label, from the flattened labels that the store
  returns for a strictly shorter prefix, and every longer parent that has the key has it
  with a \<^verbatim>\<open>cidr\<close> label only (the longest parent wins, skipped \<^verbatim>\<open>cidr\<close> labels
  apart); it adds no \<^verbatim>\<open>cidr\<close> label when \<^verbatim>\<open>lbls\<close> has one and at most one
  otherwise; and the result has every key under which a parent has a label of another
  source than \<^verbatim>\<open>cidr\<close>. For a valid canonical prefix, every parent looked up
  strictly contains the prefix. When \<^verbatim>\<open>lbls\<close> has no \<^verbatim>\<open>cidr\<close> label, a
  \<^verbatim>\<open>cidr\<close> label of the result is the one from the longest prefix: it comes from a
  parent such that every \<^verbatim>\<open>cidr\<close> label of every longer parent sits under a key
  that the result holds with a label of another source; and if some parent has a
  \<^verbatim>\<open>cidr\<close> label at all, the result has exactly one \<^verbatim>\<open>cidr\<close> label, or holds the
  key of that label with a label of another source.
\<close>

theorem mergeParentLabels_inherits:
  "(\<forall>k v. map_of lbls k = Some v \<longrightarrow> map_of (fst (mergeParentLabels lbls pc s)) k = Some v)
   \<and> (\<forall>k v. map_of (fst (mergeParentLabels lbls pc s)) k = Some v \<and> map_of lbls k = None \<longrightarrow>
         (\<exists>b < nat (Bits (AsPrefix pc)).
            (k, v) \<in> set (ancestorLabels pc s b)
            \<and> Bits (AsPrefix (parentPrefix pc b)) < Bits (AsPrefix pc)
            \<and> (\<forall>b' v'. b < b' \<and> b' < nat (Bits (AsPrefix pc))
                  \<and> (k, v') \<in> set (ancestorLabels pc s b') \<longrightarrow> Source v' = LabelSourceCIDR)))
   \<and> (HasSource LabelSourceCIDR lbls \<longrightarrow>
         filter (\<lambda>kv. Source (snd kv) = LabelSourceCIDR) (fst (mergeParentLabels lbls pc s))
           = filter (\<lambda>kv. Source (snd kv) = LabelSourceCIDR) lbls)
   \<and> cidrCount (fst (mergeParentLabels lbls pc s)) \<le> max 1 (cidrCount lbls)
   \<and> (\<forall>b k v. b < nat (Bits (AsPrefix pc)) \<and> (k, v) \<in> set (ancestorLabels pc s b)
         \<and> Source v \<noteq> LabelSourceCIDR \<longrightarrow>
         map_of (fst (mergeParentLabels lbls pc s)) k \<noteq> None)
   \<and> (IsValid (AsPrefix pc) \<and> Unmap (ip (AsPrefix pc)) = ip (AsPrefix pc)
        \<and> ip (AsPrefix pc) \<noteq> AddrZero \<and> Bits (AsPrefix pc) \<le> int (BitLen (ip (AsPrefix pc)))
        \<longrightarrow> (\<forall>b. b < nat (Bits (AsPrefix pc)) \<longrightarrow>
               strictlyContains (AsPrefix (parentPrefix pc b)) (AsPrefix pc)))
   \<and> (\<not> HasSource LabelSourceCIDR lbls \<longrightarrow>
         (\<forall>k v. (k, v) \<in> set (fst (mergeParentLabels lbls pc s)) \<and> Source v = LabelSourceCIDR \<longrightarrow>
            (\<exists>b < nat (Bits (AsPrefix pc)).
               (k, v) \<in> set (ancestorLabels pc s b)
               \<and> (\<forall>b' k' v'. b < b' \<and> b' < nat (Bits (AsPrefix pc))
                     \<and> (k', v') \<in> set (ancestorLabels pc s b') \<and> Source v' = LabelSourceCIDR \<longrightarrow>
                     (\<exists>w. map_of (fst (mergeParentLabels lbls pc s)) k' = Some w
                          \<and> Source w \<noteq> LabelSourceCIDR))))
         \<and> (\<forall>b k v. b < nat (Bits (AsPrefix pc)) \<and> (k, v) \<in> set (ancestorLabels pc s b)
               \<and> Source v = LabelSourceCIDR \<longrightarrow>
               cidrCount (fst (mergeParentLabels lbls pc s)) = 1
               \<or> (\<exists>w. map_of (fst (mergeParentLabels lbls pc s)) k = Some w
                      \<and> Source w \<noteq> LabelSourceCIDR)))"
proof -
  define n where "n = nat (Bits (AsPrefix pc))"
  define es where "es = concat (map (ancestorLabels pc s) (rev [0..<n]))"
  define h where "h = HasSource LabelSourceCIDR lbls"
  have R: "fst (mergeParentLabels lbls pc s) = fst (mergeParentEntries es (lbls, h))"
    unfolding es_def n_def h_def by (rule mergeParentLabels_entries)
  have p1: "map_of (fst (mergeParentEntries es (lbls, h))) k = Some v" if "map_of lbls k = Some v" for k v
    using that by (rule mpe_keeps)
  have p2: "\<exists>b<n. (k, v) \<in> set (ancestorLabels pc s b)
            \<and> Bits (AsPrefix (parentPrefix pc b)) < Bits (AsPrefix pc)
            \<and> (\<forall>b' v'. b < b' \<and> b' < n \<and> (k, v') \<in> set (ancestorLabels pc s b')
                  \<longrightarrow> Source v' = LabelSourceCIDR)"
    if a: "map_of (fst (mergeParentEntries es (lbls, h))) k = Some v" "map_of lbls k = None" for k v
  proof -
    from mpe_origin [OF a] obtain es1 es2 where
      e: "es = es1 @ (k, v) # es2"
         "list_all (\<lambda>kv. fst kv \<noteq> k \<or> Source (snd kv) = LabelSourceCIDR) es1"
      by blast
    from concat_rev_split [OF e(1) [unfolded es_def]] obtain b where
      b: "b < n" "(k, v) \<in> set (ancestorLabels pc s b)"
         "\<forall>b'. b < b' \<and> b' < n \<longrightarrow> set (ancestorLabels pc s b') \<subseteq> set es1"
      by blast
    have "Source v' = LabelSourceCIDR"
      if "b < b'" "b' < n" "(k, v') \<in> set (ancestorLabels pc s b')" for b' v'
    proof -
      have "(k, v') \<in> set es1" using that b(3) by blast
      then show ?thesis using e(2) by (auto simp: list_all_iff)
    qed
    moreover have "Bits (AsPrefix (parentPrefix pc b)) < Bits (AsPrefix pc)"
      using b(1) unfolding n_def by (rule parentPrefix_shorter)
    ultimately show ?thesis using b(1,2) by blast
  qed
  have p3: "filter (\<lambda>kv. Source (snd kv) = LabelSourceCIDR) (fst (mergeParentEntries es (lbls, h)))
              = filter (\<lambda>kv. Source (snd kv) = LabelSourceCIDR) lbls" if "h"
    using that mpe_cidr_same by simp
  have p4: "cidrCount (fst (mergeParentEntries es (lbls, h))) \<le> max 1 (cidrCount lbls)"
    by (rule mpe_cidr_le) (simp add: h_def HasSource_cidrCount)
  have p5: "map_of (fst (mergeParentEntries es (lbls, h))) k \<noteq> None"
    if "b < n" "(k, v) \<in> set (ancestorLabels pc s b)" "Source v \<noteq> LabelSourceCIDR" for b k v
  proof -
    have "(k, v) \<in> set es" using that(1,2) unfolding es_def by auto
    then show ?thesis using that(3) by (rule mpe_superset)
  qed
  have p6: "strictlyContains (AsPrefix (parentPrefix pc b)) (AsPrefix pc)"
    if "IsValid (AsPrefix pc)" "Unmap (ip (AsPrefix pc)) = ip (AsPrefix pc)"
       "ip (AsPrefix pc) \<noteq> AddrZero" "Bits (AsPrefix pc) \<le> int (BitLen (ip (AsPrefix pc)))"
       "b < n" for b
    using that unfolding n_def by (rule parentPrefix_contains)
  have p7: "\<exists>b<n. (k, v) \<in> set (ancestorLabels pc s b)
            \<and> (\<forall>b' k' v'. b < b' \<and> b' < n \<and> (k', v') \<in> set (ancestorLabels pc s b')
                  \<and> Source v' = LabelSourceCIDR \<longrightarrow>
                  (\<exists>w. map_of (fst (mergeParentEntries es (lbls, h))) k' = Some w
                       \<and> Source w \<noteq> LabelSourceCIDR))"
    if a: "\<not> h" "(k, v) \<in> set (fst (mergeParentEntries es (lbls, h)))"
          "Source v = LabelSourceCIDR" for k v
  proof -
    have c0: "cidrCount lbls = 0" using a(1) by (simp add: h_def HasSource_cidrCount)
    have hF: "h = False" using a(1) by simp
    from mpe_cidr_first [OF c0 a(2) [unfolded hF] a(3)] obtain es1 es2 where
      e: "es = es1 @ (k, v) # es2"
         "list_all (\<lambda>kv. Source (snd kv) = LabelSourceCIDR \<longrightarrow>
                 (\<exists>w. map_of (fst (mergeParentEntries es (lbls, h))) (fst kv) = Some w
                      \<and> Source w \<noteq> LabelSourceCIDR)) es1"
      unfolding hF by blast
    from concat_rev_split [OF e(1) [unfolded es_def]] obtain b where
      b: "b < n" "(k, v) \<in> set (ancestorLabels pc s b)"
         "\<forall>b'. b < b' \<and> b' < n \<longrightarrow> set (ancestorLabels pc s b') \<subseteq> set es1"
      by blast
    have "\<exists>w. map_of (fst (mergeParentEntries es (lbls, h))) k' = Some w
              \<and> Source w \<noteq> LabelSourceCIDR"
      if "b < b'" "b' < n" "(k', v') \<in> set (ancestorLabels pc s b')"
         "Source v' = LabelSourceCIDR" for b' k' v'
    proof -
      have "(k', v') \<in> set es1" using that(1-3) b(3) by blast
      then show ?thesis using e(2) that(4) by (auto simp: list_all_iff)
    qed
    then show ?thesis using b(1,2) by blast
  qed
  have p8: "cidrCount (fst (mergeParentEntries es (lbls, h))) = 1
            \<or> (\<exists>w. map_of (fst (mergeParentEntries es (lbls, h))) k = Some w
                   \<and> Source w \<noteq> LabelSourceCIDR)"
    if a: "\<not> h" "b < n" "(k, v) \<in> set (ancestorLabels pc s b)"
          "Source v = LabelSourceCIDR" for b k v
  proof -
    have c0: "cidrCount lbls = 0" using a(1) by (simp add: h_def HasSource_cidrCount)
    have i: "h = (0 < cidrCount lbls)" by (simp add: h_def HasSource_cidrCount)
    have "(k, v) \<in> set es" using a(2,3) unfolding es_def by auto
    from mpe_cidr_exists [OF i this a(4)] p4 c0 show ?thesis by auto
  qed
  have q7: "\<not> h \<longrightarrow>
         (\<forall>k v. (k, v) \<in> set (fst (mergeParentEntries es (lbls, h))) \<and> Source v = LabelSourceCIDR \<longrightarrow>
            (\<exists>b < n.
               (k, v) \<in> set (ancestorLabels pc s b)
               \<and> (\<forall>b' k' v'. b < b' \<and> b' < n
                     \<and> (k', v') \<in> set (ancestorLabels pc s b') \<and> Source v' = LabelSourceCIDR \<longrightarrow>
                     (\<exists>w. map_of (fst (mergeParentEntries es (lbls, h))) k' = Some w
                          \<and> Source w \<noteq> LabelSourceCIDR))))
         \<and> (\<forall>b k v. b < n \<and> (k, v) \<in> set (ancestorLabels pc s b)
               \<and> Source v = LabelSourceCIDR \<longrightarrow>
               cidrCount (fst (mergeParentEntries es (lbls, h))) = 1
               \<or> (\<exists>w. map_of (fst (mergeParentEntries es (lbls, h))) k = Some w
                      \<and> Source w \<noteq> LabelSourceCIDR))"
  proof (intro impI conjI allI)
    fix k v
    assume "\<not> h"
       "(k, v) \<in> set (fst (mergeParentEntries es (lbls, h))) \<and> Source v = LabelSourceCIDR"
    then show "\<exists>b < n.
               (k, v) \<in> set (ancestorLabels pc s b)
               \<and> (\<forall>b' k' v'. b < b' \<and> b' < n
                     \<and> (k', v') \<in> set (ancestorLabels pc s b') \<and> Source v' = LabelSourceCIDR \<longrightarrow>
                     (\<exists>w. map_of (fst (mergeParentEntries es (lbls, h))) k' = Some w
                          \<and> Source w \<noteq> LabelSourceCIDR))"
      using p7 [of k v] by simp
  next
    fix b k v
    assume "\<not> h"
       "b < n \<and> (k, v) \<in> set (ancestorLabels pc s b) \<and> Source v = LabelSourceCIDR"
    then show "cidrCount (fst (mergeParentEntries es (lbls, h))) = 1
               \<or> (\<exists>w. map_of (fst (mergeParentEntries es (lbls, h))) k = Some w
                      \<and> Source w \<noteq> LabelSourceCIDR)"
      using p8 [of b k v] by simp
  qed
  have "(\<forall>k v. map_of lbls k = Some v \<longrightarrow>
           map_of (fst (mergeParentEntries es (lbls, h))) k = Some v)
      \<and> (\<forall>k v. map_of (fst (mergeParentEntries es (lbls, h))) k = Some v
             \<and> map_of lbls k = None \<longrightarrow>
           (\<exists>b<n. (k, v) \<in> set (ancestorLabels pc s b)
              \<and> Bits (AsPrefix (parentPrefix pc b)) < Bits (AsPrefix pc)
              \<and> (\<forall>b' v'. b < b' \<and> b' < n \<and> (k, v') \<in> set (ancestorLabels pc s b')
                    \<longrightarrow> Source v' = LabelSourceCIDR)))"
    using p1 p2 by blast
  moreover have "(\<forall>b k v. b < n \<and> (k, v) \<in> set (ancestorLabels pc s b)
         \<and> Source v \<noteq> LabelSourceCIDR \<longrightarrow>
         map_of (fst (mergeParentEntries es (lbls, h))) k \<noteq> None)"
    using p5 by blast
  moreover have "IsValid (AsPrefix pc) \<and> Unmap (ip (AsPrefix pc)) = ip (AsPrefix pc)
        \<and> ip (AsPrefix pc) \<noteq> AddrZero \<and> Bits (AsPrefix pc) \<le> int (BitLen (ip (AsPrefix pc)))
        \<longrightarrow> (\<forall>b. b < n \<longrightarrow> strictlyContains (AsPrefix (parentPrefix pc b)) (AsPrefix pc))"
    using p6 by blast
  ultimately show ?thesis
    unfolding R n_def [symmetric] h_def [symmetric]
    using p3 p4 q7 by simp
qed

theorem mergeParentLabels_inherits_witness:
  "map_of (fst (mergeParentLabels exampleLabels childExample parentStore)) ''app''
     = Some \<lparr>Source = ''k8s'', Val = ''web''\<rparr>
   \<and> (\<exists>b<24. (''a'', \<lparr>Source = ''k8s'', Val = ''b''\<rparr>)
                \<in> set (ancestorLabels childExample parentStore b)
              \<and> Bits (AsPrefix (parentPrefix childExample b)) < 24)
   \<and> filter (\<lambda>kv. Source (snd kv) = LabelSourceCIDR)
         (fst (mergeParentLabels twoCIDRLabels childExample parentStore))
       = filter (\<lambda>kv. Source (snd kv) = LabelSourceCIDR) twoCIDRLabels
   \<and> cidrCount (fst (mergeParentLabels exampleLabels childExample parentStore)) \<le> 1
   \<and> map_of (fst (mergeParentLabels exampleLabels childExample parentStore)) ''a'' \<noteq> None
   \<and> strictlyContains (AsPrefix (parentPrefix childExample 8)) (AsPrefix childExample)
   \<and> (\<exists>b<24. (''10.1.0.0/16'', \<lparr>Source = ''cidr'', Val = []\<rparr>)
                 \<in> set (ancestorLabels childExample twoParentStore b))
   \<and> cidrCount (fst (mergeParentLabels exampleLabels childExample twoParentStore)) = 1
   \<and> filter (\<lambda>kv. Source (snd kv) = LabelSourceCIDR)
         (fst (mergeParentLabels exampleLabels childExample twoParentStore))
       = [(''10.1.0.0/16'', \<lparr>Source = ''cidr'', Val = []\<rparr>)]
   \<and> (''10.0.0.0/8'', \<lparr>Source = ''cidr'', Val = []\<rparr>)
         \<in> set (ancestorLabels childExample twoParentStore 8)"
proof -
  note T = mergeParentLabels_inherits [of exampleLabels childExample parentStore]
  note V = mergeParentLabels_inherits [of exampleLabels childExample twoParentStore]
  note U = mergeParentLabels_inherits [of twoCIDRLabels childExample parentStore]
  have e: "map_of exampleLabels ''app'' = Some \<lparr>Source = ''k8s'', Val = ''web''\<rparr>"
    "map_of exampleLabels ''a'' = None"
    "map_of (fst (mergeParentLabels exampleLabels childExample parentStore)) ''a''
       = Some \<lparr>Source = ''k8s'', Val = ''b''\<rparr>"
    "cidrCount exampleLabels = 0"
    "nat (Bits (AsPrefix childExample)) = 24" "Bits (AsPrefix childExample) = 24"
    "(''a'', \<lparr>Source = ''k8s'', Val = ''b''\<rparr>) \<in> set (ancestorLabels childExample parentStore 8)"
    "Source \<lparr>Source = ''k8s'', Val = ''b''\<rparr> \<noteq> LabelSourceCIDR"
    "HasSource LabelSourceCIDR twoCIDRLabels"
    "IsValid (AsPrefix childExample)"
    "Unmap (ip (AsPrefix childExample)) = ip (AsPrefix childExample)"
    "ip (AsPrefix childExample) \<noteq> AddrZero"
    "Bits (AsPrefix childExample) \<le> int (BitLen (ip (AsPrefix childExample)))"
    by code_simp+
  have w1: "map_of (fst (mergeParentLabels exampleLabels childExample parentStore)) ''app''
     = Some \<lparr>Source = ''k8s'', Val = ''web''\<rparr>"
    using T [THEN conjunct1] e(1) by blast
  have w2: "\<exists>b<24. (''a'', \<lparr>Source = ''k8s'', Val = ''b''\<rparr>)
                \<in> set (ancestorLabels childExample parentStore b)
              \<and> Bits (AsPrefix (parentPrefix childExample b)) < 24"
    using T [THEN conjunct2, THEN conjunct1, rule_format, of "''a''" "\<lparr>Source = ''k8s'', Val = ''b''\<rparr>"]
      e(2,3) unfolding e(5,6) by auto
  have w3: "filter (\<lambda>kv. Source (snd kv) = LabelSourceCIDR)
         (fst (mergeParentLabels twoCIDRLabels childExample parentStore))
       = filter (\<lambda>kv. Source (snd kv) = LabelSourceCIDR) twoCIDRLabels"
    using U [THEN conjunct2, THEN conjunct2, THEN conjunct1] e(9) by blast
  have w4: "cidrCount (fst (mergeParentLabels exampleLabels childExample parentStore)) \<le> 1"
    using T [THEN conjunct2, THEN conjunct2, THEN conjunct2, THEN conjunct1] e(4) by simp
  have w5: "map_of (fst (mergeParentLabels exampleLabels childExample parentStore)) ''a'' \<noteq> None"
    using e(3) by simp
  have w6: "strictlyContains (AsPrefix (parentPrefix childExample 8)) (AsPrefix childExample)"
    using T [THEN conjunct2, THEN conjunct2, THEN conjunct2, THEN conjunct2, THEN conjunct2,
        THEN conjunct1, rule_format, of 8] e(10-13) unfolding e(5) by simp
  have f: "\<not> HasSource LabelSourceCIDR exampleLabels"
    "(''10.1.0.0/16'', \<lparr>Source = ''cidr'', Val = []\<rparr>)
       \<in> set (fst (mergeParentLabels exampleLabels childExample twoParentStore))"
    "Source \<lparr>Source = ''cidr'', Val = []\<rparr> = LabelSourceCIDR"
    "(''10.0.0.0/8'', \<lparr>Source = ''cidr'', Val = []\<rparr>)
       \<in> set (ancestorLabels childExample twoParentStore 8)"
    "map_of (fst (mergeParentLabels exampleLabels childExample twoParentStore)) ''10.0.0.0/8''
       = None"
    "filter (\<lambda>kv. Source (snd kv) = LabelSourceCIDR)
         (fst (mergeParentLabels exampleLabels childExample twoParentStore))
       = [(''10.1.0.0/16'', \<lparr>Source = ''cidr'', Val = []\<rparr>)]"
    by code_simp+
  note V7 = V [THEN conjunct2, THEN conjunct2, THEN conjunct2, THEN conjunct2, THEN conjunct2,
      THEN conjunct2, rule_format, OF f(1)]
  have w7: "\<exists>b<24. (''10.1.0.0/16'', \<lparr>Source = ''cidr'', Val = []\<rparr>)
                 \<in> set (ancestorLabels childExample twoParentStore b)"
    using V7 [THEN conjunct1, rule_format,
        of "''10.1.0.0/16''" "\<lparr>Source = ''cidr'', Val = []\<rparr>"] f(2,3)
    unfolding e(5) by auto
  have w8: "cidrCount (fst (mergeParentLabels exampleLabels childExample twoParentStore)) = 1"
    using V7 [THEN conjunct2, rule_format,
        of 8 "''10.0.0.0/8''" "\<lparr>Source = ''cidr'', Val = []\<rparr>"] f(3,4,5)
    unfolding e(5) by simp
  show ?thesis using w1 w2 w3 w4 w5 w6 w7 w8 f(6) f(4) by (intro conjI)
qed

subsection \<open>C3: the reserved host identity\<close>

lemma getLocked_reservedHostLabels:
  "reservedHostLabels (snd (getLocked p s)) = reservedHostLabels s"
  unfolding getLocked_def by (auto split: option.splits)

lemma mergeParentLoop_reservedHostLabels:
  "reservedHostLabels (snd (mergeParentLoop n pc (acc, s))) = reservedHostLabels s"
proof (induction n arbitrary: acc s)
  case 0
  show ?case by simp
next
  case (Suc n)
  obtain info s1 where g: "getLocked (parentPrefix pc n) s = (info, s1)"
    by (cases "getLocked (parentPrefix pc n) s")
  then have "reservedHostLabels s1 = reservedHostLabels s"
    using getLocked_reservedHostLabels [of "parentPrefix pc n" s] by simp
  then show ?case using g Suc.IH by (cases info) simp_all
qed

lemma mergeParentLabels_reservedHostLabels:
  "reservedHostLabels (snd (mergeParentLabels lbls pc s)) = reservedHostLabels s"
  unfolding mergeParentLabels_def
  using mergeParentLoop_reservedHostLabels [of "nat (Bits (AsPrefix pc))" pc "(lbls, HasSource LabelSourceCIDR lbls)" s]
  by (simp split: prod.splits) (metis snd_conv)

lemma map_of_MergeLabels:
  "map_of (MergeLabels l acc) k = Some v \<Longrightarrow> (k, v) \<in> set l \<or> map_of acc k = Some v"
  unfolding MergeLabels_def
proof (induction l arbitrary: acc)
  case Nil
  then show ?case by simp
next
  case (Cons kv l)
  from Cons.IH [of "AList.update (fst kv) (snd kv) acc"] Cons.prems
  have "(k, v) \<in> set l \<or> map_of (AList.update (fst kv) (snd kv) acc) k = Some v"
    by simp
  then show ?case
    by (cases kv) (auto simp: update_conv' split: if_splits)
qed

lemma keys_hostMerge:
  "fst ` set (fold (\<lambda>pl acc. MergeLabels (snd pl) acc) rh l0)
     = fst ` set l0 \<union> (\<Union>pl \<in> set rh. fst ` set (snd pl))"
  by (induction rh arbitrary: l0) (auto simp: keys_MergeLabels)

lemma map_of_hostMerge:
  "map_of (fold (\<lambda>pl acc. MergeLabels (snd pl) acc) rh l0) k = Some v
     \<Longrightarrow> map_of l0 k = Some v \<or> (\<exists>pl \<in> set rh. (k, v) \<in> set (snd pl))"
proof (induction rh arbitrary: l0)
  case Nil
  then show ?case by simp
next
  case (Cons pl rh)
  from Cons.IH [of "MergeLabels (snd pl) l0"] Cons.prems
  have "map_of (MergeLabels (snd pl) l0) k = Some v \<or> (\<exists>pl \<in> set rh. (k, v) \<in> set (snd pl))"
    by simp
  then show ?case using map_of_MergeLabels by fastforce
qed

text \<open>
  C3: for a prefix of cluster 0 without identity override whose labels, after the parent
  labels are merged in and \<^verbatim>\<open>resolveLabels\<close> is applied, carry \<^verbatim>\<open>reserved:host\<close>,
  \<^verbatim>\<open>resolveIdentity\<close> returns the identity \<^verbatim>\<open>ReservedIdentityHost\<close> with
  \<open>isNew = False\<close>, whatever the allocator is and without changing the allocator's state;
  it records the labels of the prefix in \<open>reservedHostLabels\<close>, and the labels of the
  identity are \<^verbatim>\<open>reserved:host\<close> merged with all recorded label sets: their keys are
  the union of the keys, and every label comes from \<^verbatim>\<open>reserved:host\<close> or from a
  recorded set.
\<close>

theorem resolveIdentity_host:
  assumes "\<not> identityOverride info" and "ClusterID prefix = 0"
      and "HasHostLabel (resolvedLabels cfg G prefix info s)"
  shows "resolveIdentity cfg G C alloc prefix info (a, s)
           = (Inr (hostIdentity (hostLabelsAfter cfg G prefix info s), False), a,
              (snd (mergeParentLabels (ToLabels (Some info)) prefix s))
                \<lparr>reservedHostLabels := hostLabelsAfter cfg G prefix info s\<rparr>)
     \<and> ID (hostIdentity (hostLabelsAfter cfg G prefix info s)) = ReservedIdentityHost
     \<and> map_of (hostLabelsAfter cfg G prefix info s) (AsPrefix prefix)
         = Some (resolvedLabels cfg G prefix info s)
     \<and> fst ` set (IDLabels (hostIdentity (hostLabelsAfter cfg G prefix info s)))
         = {''host''} \<union> (\<Union>pl \<in> set (hostLabelsAfter cfg G prefix info s). fst ` set (snd pl))
     \<and> (\<forall>k v. map_of (IDLabels (hostIdentity (hostLabelsAfter cfg G prefix info s))) k = Some v
           \<longrightarrow> (k, v) \<in> set LabelHost
               \<or> (\<exists>pl \<in> set (hostLabelsAfter cfg G prefix info s). (k, v) \<in> set (snd pl)))"
proof -
  obtain lbls0 s1 where mp: "mergeParentLabels (ToLabels (Some info)) prefix s = (lbls0, s1)"
    by (cases "mergeParentLabels (ToLabels (Some info)) prefix s")
  define lbls where "lbls = resolveLabels cfg G lbls0 prefix"
  have l: "resolvedLabels cfg G prefix info s = lbls"
    by (simp add: resolvedLabels_def mp lbls_def)
  have rh1: "reservedHostLabels s1 = reservedHostLabels s"
    using mergeParentLabels_reservedHostLabels [of "ToLabels (Some info)" prefix s] mp by simp
  define rh where "rh = AList.update (AsPrefix prefix) lbls (reservedHostLabels s)"
  have rh: "hostLabelsAfter cfg G prefix info s = rh"
    by (simp add: hostLabelsAfter_def l rh_def)
  have r: "resolveIdentity cfg G C alloc prefix info (a, s)
             = (Inr (hostIdentity rh, False), a, s1\<lparr>reservedHostLabels := rh\<rparr>)"
    using assms(1,2) assms(3) [unfolded l]
    by (simp add: resolveIdentity_def mp lbls_def [symmetric] updateReservedHostLabels_def
          Let_def rh1 rh_def hostIdentity_def)
  have "map_of (IDLabels (hostIdentity rh)) k = Some v \<Longrightarrow>
          (k, v) \<in> set LabelHost \<or> (\<exists>pl \<in> set rh. (k, v) \<in> set (snd pl))" for k v
    using map_of_hostMerge [of rh LabelHost k v]
    by (auto simp: hostIdentity_def AddReservedIdentityWithLabels_def dest: map_of_SomeD)
  moreover have "fst ` set (IDLabels (hostIdentity rh))
                   = {''host''} \<union> (\<Union>pl \<in> set rh. fst ` set (snd pl))"
    by (simp add: hostIdentity_def AddReservedIdentityWithLabels_def keys_hostMerge
          LabelHost_def)
  moreover have "map_of rh (AsPrefix prefix) = Some lbls"
    by (simp add: rh_def update_conv')
  moreover have "ID (hostIdentity rh) = ReservedIdentityHost"
    by (simp add: hostIdentity_def AddReservedIdentityWithLabels_def)
  ultimately show ?thesis
    unfolding rh l using r mp by simp
qed

theorem resolveIdentity_host_witness:
  "resolvedLabels exampleConfig exampleCIDRLabels hostPrefix hostInfo hostStore
     = [(''host'', reservedLabel)]
   \<and> fst (resolveIdentity exampleConfig exampleCIDRLabels (\<lambda>p. []) failingAllocator
          hostPrefix hostInfo (0, hostStore))
     = Inr (\<lparr>ID = 1,
              IDLabels = [(''host'', reservedLabel), (''zone'', \<lparr>Source = ''k8s'', Val = ''a''\<rparr>)],
              CIDRLabel = []\<rparr>, False)
   \<and> fst (snd (resolveIdentity exampleConfig exampleCIDRLabels (\<lambda>p. []) failingAllocator
          hostPrefix hostInfo (0, hostStore))) = 0"
proof -
  have h: "\<not> identityOverride hostInfo" "ClusterID hostPrefix = 0"
    "HasHostLabel (resolvedLabels exampleConfig exampleCIDRLabels hostPrefix hostInfo hostStore)"
    by code_simp+
  have l: "resolvedLabels exampleConfig exampleCIDRLabels hostPrefix hostInfo hostStore
             = [(''host'', reservedLabel)]"
    by code_simp
  have i: "hostIdentity (hostLabelsAfter exampleConfig exampleCIDRLabels hostPrefix hostInfo
             hostStore)
     = \<lparr>ID = 1,
        IDLabels = [(''host'', reservedLabel), (''zone'', \<lparr>Source = ''k8s'', Val = ''a''\<rparr>)],
        CIDRLabel = []\<rparr>"
    by code_simp
  have "resolveIdentity exampleConfig exampleCIDRLabels (\<lambda>p. []) failingAllocator
          hostPrefix hostInfo (0, hostStore)
     = (Inr (hostIdentity (hostLabelsAfter exampleConfig exampleCIDRLabels hostPrefix hostInfo
               hostStore), False), 0,
        (snd (mergeParentLabels (ToLabels (Some hostInfo)) hostPrefix hostStore))
          \<lparr>reservedHostLabels :=
             hostLabelsAfter exampleConfig exampleCIDRLabels hostPrefix hostInfo hostStore\<rparr>)"
    using resolveIdentity_host [OF h, of "\<lambda>p. []" failingAllocator 0] by (rule conjunct1)
  then show ?thesis using l i by simp
qed

subsection \<open>C9: the world label in RemoveLabelsExcluded\<close>

text \<open>
  One call of \<^verbatim>\<open>appendAPIServerLabelsForDeletion\<close> does what C9 says: it writes the
  world label into the labels to remove exactly when the current labels are the two
  labels \<^verbatim>\<open>reserved:kube-apiserver\<close> and \<^verbatim>\<open>reserved:world\<close>, and returns the labels
  as they are otherwise.
\<close>

lemma appendAPIServerLabelsForDeletion_once:
  "appendAPIServerLabelsForDeletion lbls currentLabels =
     (if HasKubeAPIServerLabel currentLabels \<and> HasWorldLabel currentLabels
         \<and> length currentLabels = 2
      then AList.update ''world'' reservedLabel lbls else lbls)"
  by (simp add: appendAPIServerLabelsForDeletion_def MergeLabels_def LabelWorld_def)

text \<open>
  C9 fails in the loop of \<^verbatim>\<open>RemoveLabelsExcluded\<close>: the labels to remove are the map
  of the caller, written in place, so the world label merged for one prefix stays for
  every later prefix. With 10.0.0.1/32 (exactly the two labels) visited before 10.0.0.2/32
  (which also has \<^verbatim>\<open>k8s:app=web\<close>), the call for the labels
  \<^verbatim>\<open>reserved:kube-apiserver\<close> removes the world label from both, and the map of the
  caller has the world label afterwards.
\<close>

theorem RemoveLabelsExcluded_world_sticks:
  "map fst (m apiServerStore) = [examplePrefix, apiServerPrefix2]
   \<and> ToLabels (fst (getLocked examplePrefix apiServerStore))
       = [(''kube-apiserver'', reservedLabel), (''world'', reservedLabel)]
   \<and> ToLabels (fst (getLocked apiServerPrefix2 apiServerStore))
       = [(''kube-apiserver'', reservedLabel), (''world'', reservedLabel),
          (''app'', \<lparr>Source = ''k8s'', Val = ''web''\<rparr>)]
   \<and> fst (snd (RemoveLabelsExcluded apiServerLabel [] ''endpoints/kubernetes'' apiServerStore))
       = [(examplePrefix, [(''kube-apiserver'', reservedLabel), (''world'', reservedLabel)]),
          (apiServerPrefix2, [(''kube-apiserver'', reservedLabel), (''world'', reservedLabel)])]
   \<and> fst (RemoveLabelsExcluded apiServerLabel [] ''endpoints/kubernetes'' apiServerStore)
       = [(''kube-apiserver'', reservedLabel), (''world'', reservedLabel)]
   \<and> map (\<lambda>kv. (fst kv, map (\<lambda>r. labels (snd r)) (byResource (snd kv))))
         (m (snd (snd (RemoveLabelsExcluded apiServerLabel [] ''endpoints/kubernetes''
                         apiServerStore))))
       = [(apiServerPrefix2, [[(''app'', \<lparr>Source = ''k8s'', Val = ''web''\<rparr>)]])]"
  by code_simp

end
